theory Spec2Isabelle
  imports Complex_Main "HOL-Library.Sublist" "HOL-Library.AList" "HOL-Library.Log_Nat"
begin

section \<open>Python values\<close>

text \<open>
  A Python \<open>bytes\<close> object is a list of 8-bit characters. The exceptions that the modelled
  code can raise are values of \<open>py_error\<close>; a function that may raise returns
  \<open>py_error + 'a\<close>, with \<open>Inl\<close> for the exception.
\<close>

type_synonym bytes = string

datatype py_error =
    TypeError | ValueError | KeyError | IndexError | UnicodeDecodeError | UnboundLocalError
  | ZeroDivisionError | OverflowError | RuntimeError

text \<open>
  \<open>get_boundary\<close> returns either a \<open>bytes\<close> object (the matched group) or the \<open>str\<close>
  literal \<open>""\<close>; the two are different types in Python 3, and \<open>bytes.join\<close> tells them apart.
\<close>

datatype py_string = Bytes bytes | Str string

abbreviation CR :: char where "CR \<equiv> CHR 0x0D"
abbreviation LF :: char where "LF \<equiv> CHR 0x0A"
abbreviation CRLF :: bytes where "CRLF \<equiv> [CR, LF]"

subsection \<open>Operations of \<open>bytes\<close> and \<open>list\<close>\<close>

text \<open>\<open>sep.join(items)\<close>: every item must be bytes-like, otherwise \<open>TypeError\<close>.\<close>

fun bytes_join :: "bytes \<Rightarrow> py_string list \<Rightarrow> py_error + bytes" where
  "bytes_join j [] = Inr []"
| "bytes_join j (Str s # xs) = Inl TypeError"
| "bytes_join j (Bytes b # xs) =
     (case bytes_join j xs of
        Inl e \<Rightarrow> Inl e
      | Inr r \<Rightarrow> Inr (if xs = [] then b else b @ j @ r))"

text \<open>
  \<open>content.split(sep)\<close>: cut at the leftmost, non-overlapping occurrences of \<open>sep\<close>;
  an empty separator raises \<open>ValueError\<close>. \<open>split_from sep cur s\<close> scans \<open>s\<close> with the
  fragment collected so far in \<open>cur\<close>.
\<close>

fun split_from :: "bytes \<Rightarrow> bytes \<Rightarrow> bytes \<Rightarrow> bytes list" where
  "split_from sep cur [] = [cur]"
| "split_from sep cur (c # cs) =
     (if sep \<noteq> [] \<and> prefix sep (c # cs)
      then cur # split_from sep [] (drop (length sep) (c # cs))
      else split_from sep (cur @ [c]) cs)"

definition bytes_split :: "bytes \<Rightarrow> bytes \<Rightarrow> py_error + bytes list" where
  "bytes_split content sep = (if sep = [] then Inl ValueError else Inr (split_from sep [] content))"

text \<open>\<open>content.find(sub)\<close>: the lowest index where \<open>sub\<close> occurs, or \<open>-1\<close>.\<close>

fun find_idx :: "bytes \<Rightarrow> bytes \<Rightarrow> nat option" where
  "find_idx sub [] = (if sub = [] then Some 0 else None)"
| "find_idx sub (c # cs) =
     (if prefix sub (c # cs) then Some 0 else map_option Suc (find_idx sub cs))"

definition bytes_find :: "bytes \<Rightarrow> bytes \<Rightarrow> int" where
  "bytes_find content sub = (case find_idx sub content of None \<Rightarrow> - 1 | Some i \<Rightarrow> int i)"

text \<open>\<open>sub in content\<close> on \<open>bytes\<close> is containment of a contiguous run.\<close>

definition bytes_in :: "bytes \<Rightarrow> bytes \<Rightarrow> bool" where
  "bytes_in sub content = sublist sub content"

text \<open>
  The slices \<open>xs[:j]\<close> and \<open>xs[i:]\<close>: a negative index counts from the end, and an index
  outside the list is clipped (\<open>nat\<close> of a negative number is \<open>0\<close>).
\<close>

definition slice_to :: "'a list \<Rightarrow> int \<Rightarrow> 'a list" where
  "slice_to xs j = (if j < 0 then take (nat (int (length xs) + j)) xs else take (nat j) xs)"

definition slice_from :: "'a list \<Rightarrow> int \<Rightarrow> 'a list" where
  "slice_from xs i = (if i < 0 then drop (nat (int (length xs) + i)) xs else drop (nat i) xs)"

text \<open>\<open>parts[1:-1]\<close>: everything but the first and the last element.\<close>

definition slice_1_m1 :: "'a list \<Rightarrow> 'a list" where
  "slice_1_m1 xs = butlast (tl xs)"

text \<open>\<open>bytes.lstrip()\<close> removes leading ASCII whitespace: space, tab, LF, CR, VT, FF.\<close>

definition is_ascii_whitespace :: "char \<Rightarrow> bool" where
  "is_ascii_whitespace c = (c \<in> set [CHR 0x20, CHR 0x09, LF, CR, CHR 0x0B, CHR 0x0C])"

definition lstrip :: "bytes \<Rightarrow> bytes" where
  "lstrip s = dropWhile is_ascii_whitespace s"

text \<open>\<open>bytes.lower()\<close> maps the ASCII capitals to small letters and keeps every other byte.\<close>

definition lower_byte :: "char \<Rightarrow> char" where
  "lower_byte c =
     (case map_of (zip ''ABCDEFGHIJKLMNOPQRSTUVWXYZ'' ''abcdefghijklmnopqrstuvwxyz'') c of
        None \<Rightarrow> c
      | Some d \<Rightarrow> d)"

definition lower :: "bytes \<Rightarrow> bytes" where
  "lower s = map lower_byte s"

section \<open>The multipart parser of \<open>processing_ahn3.py\<close>\<close>

subsection \<open>\<open>get_boundary\<close>\<close>

text \<open>
  \<open>re.search(b"^\r\n(--.*)\r\n", response)\<close>. Without the MULTILINE flag \<open>^\<close> matches at
  offset 0 only. After the literal \<open>\r\n--\<close> the greedy \<open>.*\<close> first takes every byte up to
  the next LF (the dot matches any byte but LF) and then gives bytes back one at a time
  until the literal \<open>\r\n\<close> follows: the candidates for its length are tried from the
  longest down to 0. The group is \<open>--\<close> and what \<open>.*\<close> took. With no match the function
  returns the \<open>str\<close> literal \<open>""\<close>.
\<close>

definition get_boundary :: "bytes \<Rightarrow> py_string" where
  "get_boundary response =
     (if take 4 response = CRLF @ ''--'' then
        (let rest = drop 4 response;
             n = length (takeWhile (\<lambda>c. c \<noteq> LF) rest)
         in case find (\<lambda>k. take 2 (drop k rest) = CRLF) (rev [0..<Suc n]) of
              Some k \<Rightarrow> Bytes (''--'' @ take k rest)
            | None \<Rightarrow> Str [])
      else Str [])"

subsection \<open>\<open>split_on_find\<close>, \<open>header_parser\<close>\<close>

definition split_on_find :: "bytes \<Rightarrow> bytes \<Rightarrow> bytes \<times> bytes" where
  "split_on_find content bound =
     (let point = bytes_find content bound
      in (slice_to content point, slice_from content (point + int (length bound))))"

text \<open>
  \<open>header_parser\<close> calls three library functions, which are parameters of the model:
  \<open>bytes.decode\<close> (it raises on bytes that are not valid in the encoding),
  \<open>email.parser.HeaderParser().parsestr(s).items()\<close> and \<open>str.encode\<close>. The type \<open>'u\<close> is
  Python's \<open>str\<close>. \<open>encode_with\<close> encodes a \<open>str\<close> and returns \<open>None\<close> and \<open>bytes\<close> as they
  are; the items of a parsed message are \<open>str\<close>.
\<close>

record 'u library =
  decode :: "bytes \<Rightarrow> py_error + 'u"
  parsestr_items :: "'u \<Rightarrow> ('u \<times> 'u) list"
  encode :: "'u \<Rightarrow> bytes"

definition encode_with :: "'u library \<Rightarrow> 'u \<Rightarrow> bytes" where
  "encode_with lib s = encode lib s"

definition header_parser :: "'u library \<Rightarrow> bytes \<Rightarrow> py_error + (bytes \<times> bytes) list" where
  "header_parser lib s =
     (case decode lib s of
        Inl e \<Rightarrow> Inl e
      | Inr u \<Rightarrow> Inr (map (\<lambda>(k, v). (encode_with lib k, encode_with lib v)) (parsestr_items lib u)))"

subsection \<open>\<open>CaseInsensitiveDict\<close>\<close>

text \<open>
  \<open>requests.structures.CaseInsensitiveDict\<close> keeps an ordered dictionary from the lowered
  key to the pair of the key as given and the value. Building it from pairs stores them in
  order, so a later pair replaces an earlier one with the same lowered key. Reading a
  key that is absent raises \<open>KeyError\<close>.
\<close>

type_synonym cidict = "(bytes \<times> bytes \<times> bytes) list"

definition cid_setitem :: "cidict \<Rightarrow> bytes \<Rightarrow> bytes \<Rightarrow> cidict" where
  "cid_setitem d k v = AList.update (lower k) (k, v) d"

definition CaseInsensitiveDict :: "(bytes \<times> bytes) list \<Rightarrow> cidict" where
  "CaseInsensitiveDict kvs = fold (\<lambda>(k, v) d. cid_setitem d k v) kvs []"

definition cid_getitem :: "cidict \<Rightarrow> bytes \<Rightarrow> py_error + bytes" where
  "cid_getitem d k = (case map_of d (lower k) of None \<Rightarrow> Inl KeyError | Some (k0, v) \<Rightarrow> Inr v)"

subsection \<open>\<open>parse_response\<close>\<close>

record item =
  headers :: cidict
  content :: bytes

text \<open>The body of the loop for a fragment that holds the separator.\<close>

definition parse_part :: "'u library \<Rightarrow> bytes \<Rightarrow> py_error + item" where
  "parse_part lib part =
     (let (first, body) = split_on_find part (CRLF @ CRLF)
      in case header_parser lib (lstrip first) of
           Inl e \<Rightarrow> Inl e
         | Inr hs \<Rightarrow> Inr \<lparr>headers = CaseInsensitiveDict hs, content = body\<rparr>)"

text \<open>The loop over the fragments; the first exception ends it.\<close>

fun parse_parts :: "'u library \<Rightarrow> bytes list \<Rightarrow> py_error + item list" where
  "parse_parts lib [] = Inr []"
| "parse_parts lib (part # parts) =
     (if bytes_in (CRLF @ CRLF) part then
        (case parse_part lib part of
           Inl e \<Rightarrow> Inl e
         | Inr it \<Rightarrow>
             (case parse_parts lib parts of
                Inl e \<Rightarrow> Inl e
              | Inr its \<Rightarrow> Inr (it # its)))
      else parse_parts lib parts)"

definition parse_response :: "'u library \<Rightarrow> bytes \<Rightarrow> py_error + item list" where
  "parse_response lib body =
     (let sep = get_boundary body
      in case bytes_join [] [Bytes CRLF, sep] of
           Inl e \<Rightarrow> Inl e
         | Inr delim \<Rightarrow>
             (case bytes_split body delim of
                Inl e \<Rightarrow> Inl e
              | Inr parts \<Rightarrow> parse_parts lib (slice_1_m1 parts)))"

subsection \<open>A library instance for ASCII input\<close>

text \<open>
  To run the parser on concrete buffers the library parameter is instantiated with
  \<open>ascii_library\<close>, where \<open>str\<close> is again a list of characters. It stands for the
  library on ASCII input only: decoding keeps a buffer of ASCII bytes and refuses any byte
  above 127, encoding keeps the characters, and \<open>ascii_items\<close> reads a block of
  \<open>Name: value\<close> lines separated by CRLF, each name ending at the first colon and each
  value without its leading blanks, and stops at the first line without a colon. The
  theorems about the parser hold for every library; this instance only serves to evaluate
  the parser on examples.
\<close>

fun ascii_lines :: "string \<Rightarrow> string \<Rightarrow> string list" where
  "ascii_lines cur [] = [cur]"
| "ascii_lines cur (c # cs) =
     (if c = CR \<and> take 1 cs = [LF] then cur # ascii_lines [] (drop 1 cs)
      else ascii_lines (cur @ [c]) cs)"

fun ascii_fields :: "string list \<Rightarrow> (string \<times> string) list" where
  "ascii_fields [] = []"
| "ascii_fields (l # ls) =
     (if CHR '':'' \<in> set l
      then (takeWhile (\<lambda>c. c \<noteq> CHR '':'') l,
            dropWhile (\<lambda>c. c = CHR '' '' \<or> c = CHR 0x09) (drop 1 (dropWhile (\<lambda>c. c \<noteq> CHR '':'') l)))
           # ascii_fields ls
      else [])"

definition ascii_items :: "string \<Rightarrow> (string \<times> string) list" where
  "ascii_items s = ascii_fields (ascii_lines [] s)"

definition ascii_decode :: "bytes \<Rightarrow> py_error + string" where
  "ascii_decode s = (if list_all (\<lambda>c. (of_char c :: nat) < 128) s then Inr s else Inl UnicodeDecodeError)"

definition ascii_library :: "string library" where
  "ascii_library = \<lparr>decode = ascii_decode, parsestr_items = ascii_items, encode = (\<lambda>s. s)\<rparr>"

subsection \<open>Synthetic multipart buffers\<close>

text \<open>
  The buffer of the round-trip property: every part \<open>(h, b)\<close>, a header block and a body,
  is written as the delimiter \<open>\r\n--token\<close>, a line break, \<open>h\<close>, an empty line and \<open>b\<close>;
  the closing delimiter \<open>\r\n--token--\r\n\<close> ends the buffer. \<open>fragment p\<close> is what lies
  between two delimiters.
\<close>

definition delimiter :: "bytes \<Rightarrow> bytes" where
  "delimiter tok = CRLF @ ''--'' @ tok"

definition fragment :: "bytes \<times> bytes \<Rightarrow> bytes" where
  "fragment p = CRLF @ fst p @ CRLF @ CRLF @ snd p"

definition multipart :: "bytes \<Rightarrow> (bytes \<times> bytes) list \<Rightarrow> bytes" where
  "multipart tok parts =
     concat (map (\<lambda>p. delimiter tok @ fragment p) parts) @ delimiter tok @ ''--'' @ CRLF"



section \<open>Sampling the coverage: \<open>get_ahn_val\<close> and \<open>processAlgorithm\<close>\<close>

subsection \<open>Coverage extraction\<close>

text \<open>
  The loop of \<open>get_ahn_val\<close> over the parsed parts. The local variable \<open>coverage\<close> is
  assigned in the loop only; \<open>None\<close> stands for the unassigned variable, and reading it
  (the call of \<open>gdal.FileFromMemBuffer\<close>) raises \<open>UnboundLocalError\<close>.
\<close>

fun scan_parts :: "item list \<Rightarrow> bytes option \<Rightarrow> py_error + bytes option" where
  "scan_parts [] coverage = Inr coverage"
| "scan_parts (part # parts) coverage =
     (case cid_getitem (headers part) ''content-type'' of
        Inl e \<Rightarrow> Inl e
      | Inr ct \<Rightarrow> scan_parts parts (if ct = ''image/tiff'' then Some (content part) else coverage))"

definition read_local :: "'a option \<Rightarrow> py_error + 'a" where
  "read_local v = (case v of None \<Rightarrow> Inl UnboundLocalError | Some x \<Rightarrow> Inr x)"

definition get_ahn_val_coverage :: "item list \<Rightarrow> py_error + bytes" where
  "get_ahn_val_coverage multipart_data =
     (case scan_parts multipart_data None of
        Inl e \<Rightarrow> Inl e
      | Inr coverage \<Rightarrow> read_local coverage)"

definition has_content_type :: "item \<Rightarrow> bool" where
  "has_content_type part = (cid_getitem (headers part) ''content-type'' \<noteq> Inl KeyError)"

definition is_tiff :: "item \<Rightarrow> bool" where
  "is_tiff part = (cid_getitem (headers part) ''content-type'' = Inr ''image/tiff'')"

subsection \<open>Python floats\<close>

text \<open>
  A Python \<open>float\<close> is an IEEE 754 double: a finite number (kept as the rational it
  denotes, \<open>Finite 0\<close> being the positive zero), the negative zero, an infinity or NaN.
  \<open>round_double\<close> rounds a rational to the nearest double, ties to the even mantissa:
  the unit of the last of 53 bits is \<open>2^(e - 52)\<close> for a number in \<open>[2^e, 2^(e+1))\<close>, and
  \<open>2^(-1074)\<close> below \<open>2^(-1022)\<close>; what rounds to \<open>2^1024\<close> or more is an infinity, and a
  number that rounds to nothing is a zero of its sign. A decimal literal denotes the
  double nearest to it.
\<close>

datatype py_float = Finite rat | NegZero | PosInf | NegInf | NaN

definition pow2 :: "int \<Rightarrow> rat" where
  "pow2 e = 2 powi e"

definition floor_log2 :: "rat \<Rightarrow> int" where
  "floor_log2 a =
     (if 1 \<le> a then bitlen \<lfloor>a\<rfloor> - 1
      else (let k = bitlen \<lfloor>1 / a\<rfloor>
            in if a = pow2 (1 - k) then 1 - k else - k))"

definition round_half_even :: "rat \<Rightarrow> int" where
  "round_half_even q =
     (let f = \<lfloor>q\<rfloor>; r = q - of_int f
      in if r < 1 / 2 then f
         else if 1 / 2 < r then f + 1
         else if even f then f else f + 1)"

definition round_double :: "rat \<Rightarrow> py_float" where
  "round_double q =
     (if q = 0 then Finite 0
      else (let a = \<bar>q\<bar>;
                e = max (floor_log2 a) (- 1022);
                u = pow2 (e - 52);
                r = of_int (round_half_even (a / u)) * u
            in if 2 ^ 1024 \<le> r then (if 0 < q then PosInf else NegInf)
               else if r = 0 then (if 0 < q then Finite 0 else NegZero)
               else Finite (if 0 < q then r else - r)))"

definition fval :: "py_float \<Rightarrow> rat" where
  "fval x = (case x of Finite q \<Rightarrow> q | _ \<Rightarrow> 0)"

definition is_finite :: "py_float \<Rightarrow> bool" where
  "is_finite x = (case x of Finite q \<Rightarrow> True | NegZero \<Rightarrow> True | _ \<Rightarrow> False)"

definition is_zero :: "py_float \<Rightarrow> bool" where
  "is_zero x = (case x of Finite q \<Rightarrow> q = 0 | NegZero \<Rightarrow> True | _ \<Rightarrow> False)"

definition signbit :: "py_float \<Rightarrow> bool" where
  "signbit x = (case x of Finite q \<Rightarrow> q < 0 | NegZero \<Rightarrow> True | NegInf \<Rightarrow> True | _ \<Rightarrow> False)"

definition zero_of :: "bool \<Rightarrow> py_float" where
  "zero_of neg = (if neg then NegZero else Finite 0)"

definition inf_of :: "bool \<Rightarrow> py_float" where
  "inf_of neg = (if neg then NegInf else PosInf)"

text \<open>
  The arithmetic of IEEE 754: the exact result, rounded. A sum that is exactly zero is
  the negative zero only when both operands are negative; a zero product or quotient has
  the sign of its operands combined.
\<close>

definition ieee_neg :: "py_float \<Rightarrow> py_float" where
  "ieee_neg x =
     (case x of
        Finite q \<Rightarrow> (if q = 0 then NegZero else Finite (- q))
      | NegZero \<Rightarrow> Finite 0
      | PosInf \<Rightarrow> NegInf
      | NegInf \<Rightarrow> PosInf
      | NaN \<Rightarrow> NaN)"

definition ieee_add :: "py_float \<Rightarrow> py_float \<Rightarrow> py_float" where
  "ieee_add x y =
     (if x = NaN \<or> y = NaN then NaN
      else if is_finite x then
        (if is_finite y then
           (let s = fval x + fval y
            in if s = 0 then zero_of (signbit x \<and> signbit y) else round_double s)
         else y)
      else if is_finite y then x
      else if x = y then x else NaN)"

definition ieee_sub :: "py_float \<Rightarrow> py_float \<Rightarrow> py_float" where
  "ieee_sub x y = ieee_add x (ieee_neg y)"

definition ieee_mul :: "py_float \<Rightarrow> py_float \<Rightarrow> py_float" where
  "ieee_mul x y =
     (if x = NaN \<or> y = NaN then NaN
      else if is_finite x \<and> is_finite y then
        (let p = fval x * fval y
         in if p = 0 then zero_of (signbit x \<noteq> signbit y) else round_double p)
      else if is_zero x \<or> is_zero y then NaN
      else inf_of (signbit x \<noteq> signbit y))"

definition ieee_div :: "py_float \<Rightarrow> py_float \<Rightarrow> py_float" where
  "ieee_div x y =
     (if x = NaN \<or> y = NaN then NaN
      else if is_finite x then
        (if is_finite y then
           (if is_zero y then (if is_zero x then NaN else inf_of (signbit x \<noteq> signbit y))
            else (let q = fval x / fval y
                  in if q = 0 then zero_of (signbit x \<noteq> signbit y) else round_double q))
         else zero_of (signbit x \<noteq> signbit y))
      else if is_finite y then inf_of (signbit x \<noteq> signbit y)
      else NaN)"

text \<open>
  The operators of Python on two floats. \<open>+\<close>, \<open>-\<close> and \<open>*\<close> never raise; \<open>/\<close> and \<open>//\<close>
  raise \<open>ZeroDivisionError\<close> on a zero divisor. \<open>math.floor\<close> returns an \<open>int\<close> and raises
  on NaN and on an infinity. \<open>==\<close> takes the two zeros for equal and NaN for equal to
  nothing.
\<close>

definition py_add :: "py_float \<Rightarrow> py_float \<Rightarrow> py_float" where
  "py_add x y = ieee_add x y"

definition py_sub :: "py_float \<Rightarrow> py_float \<Rightarrow> py_float" where
  "py_sub x y = ieee_sub x y"

definition py_mul :: "py_float \<Rightarrow> py_float \<Rightarrow> py_float" where
  "py_mul x y = ieee_mul x y"

definition py_truediv :: "py_float \<Rightarrow> py_float \<Rightarrow> py_error + py_float" where
  "py_truediv x y = (if is_zero y then Inl ZeroDivisionError else Inr (ieee_div x y))"

definition math_floor :: "py_float \<Rightarrow> py_error + int" where
  "math_floor x =
     (case x of
        NaN \<Rightarrow> Inl ValueError
      | PosInf \<Rightarrow> Inl OverflowError
      | NegInf \<Rightarrow> Inl OverflowError
      | _ \<Rightarrow> Inr \<lfloor>fval x\<rfloor>)"

fun float_eq :: "py_float \<Rightarrow> py_float \<Rightarrow> bool" where
  "float_eq (Finite a) (Finite b) = (a = b)"
| "float_eq (Finite a) NegZero = (a = 0)"
| "float_eq NegZero (Finite b) = (b = 0)"
| "float_eq NegZero NegZero = True"
| "float_eq PosInf PosInf = True"
| "float_eq NegInf NegInf = True"
| "float_eq x y = False"

text \<open>
  Floor division of floats, as the interpreter computes it: the remainder \<open>fmod\<close> of the
  C library (exact, with the sign of the dividend), the quotient of what is left, one less
  when the remainder and the divisor differ in sign, and the quotient snapped to the
  integral value next to it.
\<close>

definition c_trunc :: "rat \<Rightarrow> int" where
  "c_trunc q = (if 0 \<le> q then \<lfloor>q\<rfloor> else \<lceil>q\<rceil>)"

definition c_fmod :: "py_float \<Rightarrow> py_float \<Rightarrow> py_float" where
  "c_fmod x y =
     (if x = NaN \<or> y = NaN then NaN
      else if is_finite x then
        (if is_finite y then
           (if is_zero y then NaN
            else (let r = fval x - of_int (c_trunc (fval x / fval y)) * fval y
                  in if r = 0 then zero_of (signbit x) else Finite r))
         else x)
      else NaN)"

definition c_floor :: "py_float \<Rightarrow> py_float" where
  "c_floor x = (case x of Finite q \<Rightarrow> Finite (of_int \<lfloor>q\<rfloor>) | _ \<Rightarrow> x)"

definition c_lt0 :: "py_float \<Rightarrow> bool" where
  "c_lt0 x = (case x of Finite q \<Rightarrow> q < 0 | NegInf \<Rightarrow> True | _ \<Rightarrow> False)"

definition c_gt_half :: "py_float \<Rightarrow> bool" where
  "c_gt_half x = (case x of Finite q \<Rightarrow> 1 / 2 < q | PosInf \<Rightarrow> True | _ \<Rightarrow> False)"

definition py_floordiv :: "py_float \<Rightarrow> py_float \<Rightarrow> py_error + py_float" where
  "py_floordiv vx wx =
     (if is_zero wx then Inl ZeroDivisionError
      else (let m = c_fmod vx wx;
                d0 = ieee_div (ieee_sub vx m) wx;
                d = (if is_zero m then d0
                     else if c_lt0 wx = c_lt0 m then d0
                     else ieee_sub d0 (Finite 1))
            in Inr (if is_zero d then zero_of (signbit (ieee_div vx wx))
                    else (let floordiv = c_floor d
                          in if c_gt_half (ieee_sub d floordiv) then ieee_add floordiv (Finite 1)
                             else floordiv))))"

subsection \<open>The no-data value\<close>

text \<open>
  The literal \<open>3.4028234663852886e38\<close> denotes the largest finite 32-bit float,
  \<open>(2^24 - 1) * 2^104\<close>. The translation in \<open>processAlgorithm\<close> is
  \<open>if ahn_val == 3.4028234663852886e38: ahn_val = None\<close>.
\<close>

definition NODATA :: py_float where
  "NODATA = round_double (34028234663852886 * 10 ^ 22)"

definition elevation_attribute :: "py_float \<Rightarrow> py_float option" where
  "elevation_attribute ahn_val = (if float_eq ahn_val NODATA then None else Some ahn_val)"

subsection \<open>The request window and the pixel index\<close>

text \<open>
  The bounds of the window along one axis, from the origin of the grid, the cell size and
  the coordinate: \<open>lower = origin + (((v - origin) // cell_size) * cell_size)\<close> and
  \<open>upper = lower + (2 * cell_size)\<close>.
\<close>

definition window_bounds :: "py_float \<Rightarrow> py_float \<Rightarrow> py_float \<Rightarrow> py_error + py_float \<times> py_float" where
  "window_bounds origin cell_size v =
     (case py_floordiv (py_sub v origin) cell_size of
        Inl e \<Rightarrow> Inl e
      | Inr q \<Rightarrow>
          (let lower_bound = py_add origin (py_mul q cell_size);
               upper_bound = py_add lower_bound (py_mul (Finite 2) cell_size)
           in Inr (lower_bound, upper_bound)))"

text \<open>
  The GeoTransform of a dataset is a tuple of six floats. The pixel index of a point is
  \<open>px = floor((x - gt[0]) / gt[1])\<close> and \<open>py = floor((y - gt[3]) / gt[5])\<close>.
\<close>

type_synonym geotransform = "py_float \<times> py_float \<times> py_float \<times> py_float \<times> py_float \<times> py_float"

definition pixel_index :: "geotransform \<Rightarrow> py_float \<times> py_float \<Rightarrow> py_error + int \<times> int" where
  "pixel_index gt pt =
     (case gt of (gt0, gt1, gt2, gt3, gt4, gt5) \<Rightarrow>
      case pt of (x, y) \<Rightarrow>
        (case py_truediv (py_sub x gt0) gt1 of
           Inl e \<Rightarrow> Inl e
         | Inr qx \<Rightarrow>
             (case math_floor qx of
                Inl e \<Rightarrow> Inl e
              | Inr px \<Rightarrow>
                  (case py_truediv (py_sub y gt3) gt5 of
                     Inl e \<Rightarrow> Inl e
                   | Inr qy \<Rightarrow>
                       (case math_floor qy of
                          Inl e \<Rightarrow> Inl e
                        | Inr py \<Rightarrow> Inr (px, py))))))"

subsection \<open>\<open>get_ahn_val\<close>\<close>

text \<open>
  What \<open>get_ahn_val\<close> obtains from outside is a parameter of the model: the origin and
  the cell size of the grid that the service declares for the coverage, the body of the
  GetCoverage response for a window (the URL is written from the coverage id and the
  four bounds), the raster library that opens the coverage bytes as a dataset, with its
  GeoTransform and the read of one pixel of band 1 as 32-bit float, and
  \<open>struct.unpack("f", _)\<close>.
\<close>

record dataset =
  GetGeoTransform :: geotransform
  ReadRaster :: "int \<Rightarrow> int \<Rightarrow> py_error + bytes"

record 'u services =
  py_lib :: "'u library"
  grid_origin :: "py_float \<times> py_float"
  grid_cell_size :: py_float
  get_request_bytes :: "py_float \<times> py_float \<times> py_float \<times> py_float \<Rightarrow> bytes"
  gdal_Open :: "bytes \<Rightarrow> py_error + dataset"
  struct_unpack :: "bytes \<Rightarrow> py_error + py_float"

text \<open>The window of the request: the bounds along x, then along y.\<close>

definition request_window ::
  "'u services \<Rightarrow> py_float \<times> py_float
     \<Rightarrow> py_error + py_float \<times> py_float \<times> py_float \<times> py_float" where
  "request_window env pt =
     (case window_bounds (fst (grid_origin env)) (grid_cell_size env) (fst pt) of
        Inl e \<Rightarrow> Inl e
      | Inr (x_lower_bound, x_upper_bound) \<Rightarrow>
          (case window_bounds (snd (grid_origin env)) (grid_cell_size env) (snd pt) of
             Inl e \<Rightarrow> Inl e
           | Inr (y_lower_bound, y_upper_bound) \<Rightarrow>
               Inr (x_lower_bound, x_upper_bound, y_lower_bound, y_upper_bound)))"

text \<open>
  The end of \<open>get_ahn_val\<close>, from the coverage on: the dataset, the pixel index, the read
  of the pixel and the unpacked value, which is returned as it is.
\<close>

definition read_sample :: "'u services \<Rightarrow> bytes \<Rightarrow> py_float \<times> py_float \<Rightarrow> py_error + py_float" where
  "read_sample env coverage pt =
     (case gdal_Open env coverage of
        Inl e \<Rightarrow> Inl e
      | Inr ds \<Rightarrow>
          (case pixel_index (GetGeoTransform ds) pt of
             Inl e \<Rightarrow> Inl e
           | Inr (px, py) \<Rightarrow>
               (case ReadRaster ds px py of
                  Inl e \<Rightarrow> Inl e
                | Inr structval \<Rightarrow> struct_unpack env structval)))"

definition get_ahn_val :: "'u services \<Rightarrow> py_float \<times> py_float \<Rightarrow> py_error + py_float" where
  "get_ahn_val env pt =
     (case request_window env pt of
        Inl e \<Rightarrow> Inl e
      | Inr window \<Rightarrow>
          (let response_body = get_request_bytes env window
           in case parse_response (py_lib env) response_body of
                Inl e \<Rightarrow> Inl e
              | Inr multipart_data \<Rightarrow>
                  (case get_ahn_val_coverage multipart_data of
                     Inl e \<Rightarrow> Inl e
                   | Inr coverage \<Rightarrow> read_sample env coverage pt)))"

subsection \<open>\<open>processAlgorithm\<close>\<close>

text \<open>
  The loop over the input features: the new feature gets the attributes of the input
  feature and, under the attribute name, the translated sample, and is added to the sink.
  \<open>feedback.isCanceled()\<close> is asked once before the loop and once after every feature
  added; \<open>isCanceled n\<close> is the answer of the call made when \<open>n\<close> features have been
  added. A cancelled run returns \<open>{}\<close>, a complete one the dictionary with the id of the
  output. Any exception inside the \<open>try\<close> block is raised again as
  \<open>QgsProcessingException\<close>, the error shown to the user. The result of a run is the list
  of the features added to the sink and the way the run ended.
\<close>

datatype qgs_error = QgsProcessingException py_error

datatype 'e outcome = Return_empty | Return_results | Raise 'e

record 'a feature =
  attributes :: "'a list"
  point :: "py_float \<times> py_float"

fun process_features ::
  "'u services \<Rightarrow> (nat \<Rightarrow> bool) \<Rightarrow> nat \<Rightarrow> 'a feature list
     \<Rightarrow> ('a list \<times> py_float option) list \<times> py_error outcome" where
  "process_features env isCanceled n [] = ([], Return_results)"
| "process_features env isCanceled n (ft # fts) =
     (case get_ahn_val env (point ft) of
        Inl e \<Rightarrow> ([], Raise e)
      | Inr ahn_val \<Rightarrow>
          (let new_ft = (attributes ft, elevation_attribute ahn_val)
           in if isCanceled (Suc n) then ([new_ft], Return_empty)
              else (case process_features env isCanceled (Suc n) fts of
                      (sink, r) \<Rightarrow> (new_ft # sink, r))))"

definition processAlgorithm ::
  "'u services \<Rightarrow> (nat \<Rightarrow> bool) \<Rightarrow> 'a feature list
     \<Rightarrow> ('a list \<times> py_float option) list \<times> qgs_error outcome" where
  "processAlgorithm env isCanceled fts =
     (if isCanceled 0 then ([], Return_empty)
      else (case process_features env isCanceled 0 fts of
              (sink, r) \<Rightarrow>
                (sink, case r of
                         Raise e \<Rightarrow> Raise (QgsProcessingException e)
                       | Return_empty \<Rightarrow> Return_empty
                       | Return_results \<Rightarrow> Return_results)))"

section \<open>The lookup of \<open>locatieserver.py\<close>\<close>

text \<open>
  The value of \<open>json.loads\<close>: \<open>JNull\<close> is \<open>None\<close>, an object is a dictionary, given by its
  key-value pairs. \<open>json_getitem v k\<close> is \<open>v[k]\<close> for a string \<open>k\<close>, \<open>json_index0 v\<close> is
  \<open>v[0]\<close>, and \<open>json_ne_1 v\<close> is \<open>v != 1\<close> (in Python \<open>True == 1\<close> and \<open>1.0 == 1\<close>).
\<close>

datatype json =
    JNull | JBool bool | JInt int | JFloat py_float | JStr string
  | JArr "json list" | JObj "(string \<times> json) list"

definition json_getitem :: "json \<Rightarrow> string \<Rightarrow> py_error + json" where
  "json_getitem v k =
     (case v of
        JObj kvs \<Rightarrow> (case map_of kvs k of None \<Rightarrow> Inl KeyError | Some x \<Rightarrow> Inr x)
      | _ \<Rightarrow> Inl TypeError)"

definition json_index0 :: "json \<Rightarrow> py_error + json" where
  "json_index0 v =
     (case v of
        JArr xs \<Rightarrow> (case xs of [] \<Rightarrow> Inl IndexError | x # _ \<Rightarrow> Inr x)
      | JStr s \<Rightarrow> (case s of [] \<Rightarrow> Inl IndexError | c # _ \<Rightarrow> Inr (JStr [c]))
      | JObj kvs \<Rightarrow> Inl KeyError
      | _ \<Rightarrow> Inl TypeError)"

definition json_ne_1 :: "json \<Rightarrow> bool" where
  "json_ne_1 v =
     (case v of
        JInt n \<Rightarrow> n \<noteq> 1
      | JBool b \<Rightarrow> \<not> b
      | JFloat f \<Rightarrow> \<not> float_eq f (Finite 1)
      | _ \<Rightarrow> True)"

datatype Projection = EPSG_4326 | EPSG_28992

definition SERVICE_ENDPOINT :: string where
  "SERVICE_ENDPOINT = ''https://geodata.nationaalgeoregister.nl/locatieserver/v3''"

fun proj_mapping :: "Projection \<Rightarrow> string" where
  "proj_mapping EPSG_28992 = ''geometrie_rd''"
| "proj_mapping EPSG_4326 = ''geometrie_ll''"

text \<open>
  The outside of \<open>lookup_object\<close>: \<open>urllib.parse.quote\<close> and \<open>get_request\<close>, the request
  that returns the decoded JSON document or raises.
\<close>

record web =
  quote :: "string \<Rightarrow> string"
  get_request :: "string \<Rightarrow> py_error + json"

definition lookup_url :: "web \<Rightarrow> string \<Rightarrow> Projection \<Rightarrow> string" where
  "lookup_url w object_id proj =
     (let geom_string = proj_mapping proj;
          fields_filter = quote w (''*,'' @ geom_string);
          object_id' = quote w object_id;
          query_string = ''id='' @ object_id' @ ''&fl='' @ fields_filter
      in SERVICE_ENDPOINT @ ''/lookup?'' @ query_string)"

text \<open>The result is a Python value: \<open>JNull\<close> is the returned \<open>None\<close>.\<close>

definition lookup_object :: "web \<Rightarrow> string \<Rightarrow> Projection \<Rightarrow> py_error + json" where
  "lookup_object w object_id proj =
     (case get_request w (lookup_url w object_id proj) of
        Inl e \<Rightarrow> Inl e
      | Inr content_obj \<Rightarrow>
          (case json_getitem content_obj ''response'' of
             Inl e \<Rightarrow> Inl e
           | Inr response \<Rightarrow>
               (case json_getitem response ''numFound'' of
                  Inl e \<Rightarrow> Inl e
                | Inr numFound \<Rightarrow>
                    if json_ne_1 numFound then Inr JNull
                    else (case json_getitem response ''docs'' of
                            Inl e \<Rightarrow> Inl e
                          | Inr docs \<Rightarrow> json_index0 docs))))"

section \<open>Example inputs\<close>

definition ex_parts :: "(bytes \<times> bytes) list" where
  "ex_parts = [(''Content-Type: image/tiff'', ''II*''),
               (''Content-Type: text/xml'' @ CRLF @ ''Content-ID: gml'', ''<a/>'')]"


definition ex_body :: bytes where
  "ex_body = CRLF @ ''--x'' @ CRLF @ ''junk'' @ CRLF @ ''--x'' @ CRLF @ ''A: b'' @ CRLF @ CRLF
               @ ''data'' @ CRLF @ ''--x--'' @ CRLF"

definition ex_no_leading_crlf :: bytes where
  "ex_no_leading_crlf = ''--wcs'' @ CRLF @ ''Content-Type: image/tiff'' @ CRLF @ CRLF @ ''II*''
               @ CRLF @ ''--wcs--'' @ CRLF"

definition tiff_a :: item where
  "tiff_a = \<lparr>headers = CaseInsensitiveDict [(''Content-Type'', ''image/tiff'')], content = ''A''\<rparr>"

definition tiff_b :: item where
  "tiff_b = \<lparr>headers = CaseInsensitiveDict [(''content-type'', ''image/tiff'')], content = ''B''\<rparr>"

definition xml_c :: item where
  "xml_c = \<lparr>headers = CaseInsensitiveDict [(''Content-Type'', ''text/xml'')], content = ''C''\<rparr>"

definition no_ct :: item where
  "no_ct = \<lparr>headers = CaseInsensitiveDict [(''Content-ID'', ''x'')], content = ''D''\<rparr>"

definition ex_dataset :: dataset where
  "ex_dataset =
     \<lparr>GetGeoTransform = (Finite 100000, Finite (1 / 2), Finite 0, Finite 500000, Finite 0, Finite (- 1 / 2)),
      ReadRaster = (\<lambda>px py. if px = 2 \<and> py = 4 then Inr [CHR 0xFF, CHR 0xFF, CHR 0x7F, CHR 0x7F]
                             else Inr [CHR 0x00, CHR 0x00, CHR 0x60, CHR 0x40])\<rparr>"

text \<open>
  The two pixel values of the example as \<open>struct.unpack("f", _)\<close> reads them on a
  little-endian machine: \<open>ff ff 7f 7f\<close> is the largest finite 32-bit float and
  \<open>00 00 60 40\<close> is 3.5.
\<close>

definition ex_unpack :: "bytes \<Rightarrow> py_error + py_float" where
  "ex_unpack structval =
     (if structval = [CHR 0xFF, CHR 0xFF, CHR 0x7F, CHR 0x7F] then Inr (Finite ((2 ^ 24 - 1) * 2 ^ 104))
      else if structval = [CHR 0x00, CHR 0x00, CHR 0x60, CHR 0x40] then Inr (Finite (7 / 2))
      else Inl RuntimeError)"

definition ex_env ::
  "(py_float \<times> py_float \<times> py_float \<times> py_float \<Rightarrow> bytes) \<Rightarrow> string services" where
  "ex_env response =
     \<lparr>py_lib = ascii_library, grid_origin = (Finite 0, Finite 0), grid_cell_size = Finite 2,
      get_request_bytes = response, gdal_Open = (\<lambda>coverage. Inr ex_dataset),
      struct_unpack = ex_unpack\<rparr>"

definition ex_point :: "py_float \<times> py_float" where
  "ex_point = (Finite 100001, Finite 499998)"

definition ex_window :: "py_float \<times> py_float \<times> py_float \<times> py_float" where
  "ex_window = (Finite 100000, Finite 100004, Finite 499998, Finite 500002)"

definition ex_point2 :: "py_float \<times> py_float" where
  "ex_point2 = (Finite 100003, Finite 499997)"

definition ex_window2 :: "py_float \<times> py_float \<times> py_float \<times> py_float" where
  "ex_window2 = (Finite 100002, Finite 100006, Finite 499996, Finite 500000)"

text \<open>A service that has a coverage for the first window only.\<close>

definition ex_response_body :: "py_float \<times> py_float \<times> py_float \<times> py_float \<Rightarrow> bytes" where
  "ex_response_body window =
     (if window = ex_window then multipart ''wcs'' ex_parts
      else multipart ''wcs'' [(''Content-Type: text/xml'', ''C'')])"

definition ex_feature :: "string feature" where
  "ex_feature = \<lparr>attributes = [''mast 12''], point = ex_point\<rparr>"

definition ex_feature2 :: "string feature" where
  "ex_feature2 = \<lparr>attributes = [''mast 13''], point = ex_point2\<rparr>"

definition ex_web :: "json \<Rightarrow> web" where
  "ex_web r = \<lparr>quote = (\<lambda>s. s), get_request = (\<lambda>url. Inr r)\<rparr>"

definition ex_response :: "int \<Rightarrow> json" where
  "ex_response n =
     JObj [(''response'',
            JObj [(''numFound'', JInt n),
                  (''docs'', JArr [JObj [(''id'', JStr ''adr-1'')], JObj [(''id'', JStr ''adr-2'')]])])]"

section \<open>Rounding to a double\<close>

lemma pow2_pos: "0 < pow2 e"
  by (simp add: pow2_def)

lemma pow2_add: "pow2 (a + b) = pow2 a * pow2 b"
  by (simp add: pow2_def power_int_add)

lemma pow2_nat: "pow2 (int n) = 2 ^ n"
  by (simp add: pow2_def)

lemma pow2_less_imp: "pow2 a < pow2 b \<Longrightarrow> a < b"
proof (rule ccontr)
  assume l: "pow2 a < pow2 b" and "\<not> a < b"
  then have "b \<le> a" by simp
  then have "pow2 b \<le> pow2 a"
    unfolding pow2_def by (intro power_int_increasing) simp_all
  with l show False by simp
qed

lemma pow2_mono: "a \<le> b \<Longrightarrow> pow2 a \<le> pow2 b"
  unfolding pow2_def by (intro power_int_increasing) simp_all

lemma pow2_minus: "pow2 (- a) = 1 / pow2 a"
  by (simp add: pow2_def power_int_minus field_simps)

lemma floor_log2_bounds:
  assumes "0 < a"
  shows "pow2 (floor_log2 a) \<le> a \<and> a < pow2 (floor_log2 a + 1)"
proof (cases "1 \<le> a")
  case True
  let ?n = "\<lfloor>a\<rfloor>"
  from True have n: "0 < ?n" by simp
  from bitlen_bounds [OF n] have lo: "2 ^ nat (bitlen ?n - 1) \<le> ?n" and hi: "?n < 2 ^ nat (bitlen ?n)"
    by simp_all
  from n have b1: "1 \<le> bitlen ?n"
    using bitlen_eq_zero_iff [of ?n] bitlen_nonneg [of ?n] by linarith
  have e: "floor_log2 a = bitlen ?n - 1"
    using True by (simp add: floor_log2_def)
  have p1: "pow2 (bitlen ?n - 1) = 2 ^ nat (bitlen ?n - 1)"
    using b1 by (simp add: pow2_def power_int_def)
  have p2: "pow2 (bitlen ?n - 1 + 1) = 2 ^ nat (bitlen ?n)"
    using b1 by (simp add: pow2_def power_int_def)
  have "(2 :: rat) ^ nat (bitlen ?n - 1) = of_int (2 ^ nat (bitlen ?n - 1))" by simp
  also have "\<dots> \<le> of_int ?n" using lo by (simp only: of_int_le_iff)
  also have "\<dots> \<le> a" by simp
  finally have A: "pow2 (floor_log2 a) \<le> a" unfolding e p1 .
  from hi have "?n + 1 \<le> 2 ^ nat (bitlen ?n)" by simp
  then have "of_int (?n + 1) \<le> (of_int (2 ^ nat (bitlen ?n)) :: rat)" by (simp only: of_int_le_iff)
  then have "of_int ?n + 1 \<le> (2 :: rat) ^ nat (bitlen ?n)" by simp
  moreover have "a < of_int ?n + 1" by linarith
  ultimately have B: "a < pow2 (floor_log2 a + 1)" unfolding e p2 by simp
  from A B show ?thesis by simp
next
  case False
  then have a1: "a < 1" by simp
  let ?b = "1 / a"
  let ?n = "\<lfloor>?b\<rfloor>"
  let ?k = "bitlen ?n"
  from assms a1 have b1: "1 < ?b" by simp
  then have n: "0 < ?n" by simp
  from bitlen_bounds [OF n] have lo: "2 ^ nat (?k - 1) \<le> ?n" and hi: "?n < 2 ^ nat ?k"
    by simp_all
  from n have k1: "1 \<le> ?k"
    using bitlen_eq_zero_iff [of ?n] bitlen_nonneg [of ?n] by linarith
  have "(2 :: rat) ^ nat (?k - 1) = of_int (2 ^ nat (?k - 1))" by simp
  also have "\<dots> \<le> of_int ?n" using lo by (simp only: of_int_le_iff)
  also have "\<dots> \<le> ?b" by simp
  finally have L: "(2 :: rat) ^ nat (?k - 1) \<le> ?b" .
  from hi have "?n + 1 \<le> 2 ^ nat ?k" by simp
  then have "of_int (?n + 1) \<le> (of_int (2 ^ nat ?k) :: rat)" by (simp only: of_int_le_iff)
  then have "of_int ?n + 1 \<le> (2 :: rat) ^ nat ?k" by simp
  moreover have "?b < of_int ?n + 1" by linarith
  ultimately have H: "?b < (2 :: rat) ^ nat ?k" by simp
  have q1: "pow2 (1 - ?k) = 1 / 2 ^ nat (?k - 1)"
  proof -
    have "pow2 (1 - ?k) = pow2 (- (?k - 1))" by simp
    also have "\<dots> = 1 / pow2 (?k - 1)" by (rule pow2_minus)
    also have "pow2 (?k - 1) = 2 ^ nat (?k - 1)" using k1 by (simp add: pow2_def power_int_def)
    finally show ?thesis .
  qed
  have q2: "pow2 (- ?k) = 1 / 2 ^ nat ?k"
  proof -
    have "pow2 (- ?k) = 1 / pow2 ?k" by (rule pow2_minus)
    also have "pow2 ?k = 2 ^ nat ?k" using k1 by (simp add: pow2_def power_int_def)
    finally show ?thesis .
  qed
  have U: "a \<le> pow2 (1 - ?k)"
  proof -
    from L assms have "a * 2 ^ nat (?k - 1) \<le> 1" by (simp add: field_simps)
    then show ?thesis unfolding q1 by (simp add: field_simps)
  qed
  have D: "pow2 (- ?k) < a"
  proof -
    from H assms have "1 < a * 2 ^ nat ?k" by (simp add: field_simps)
    then show ?thesis unfolding q2 by (simp add: field_simps)
  qed
  show ?thesis
  proof (cases "a = pow2 (1 - ?k)")
    case True
    then have e: "floor_log2 a = 1 - ?k"
      using a1 by (simp add: floor_log2_def Let_def)
    have "pow2 (1 - ?k) < pow2 (1 - ?k + 1)"
      using pow2_add [of "1 - ?k" 1] pow2_pos [of "1 - ?k"] by (simp add: pow2_def)
    with True show ?thesis unfolding e by simp
  next
    case False
    then have e: "floor_log2 a = - ?k"
      using a1 by (simp add: floor_log2_def Let_def)
    from False U have "a < pow2 (1 - ?k)" by simp
    then have "a < pow2 (- ?k + 1)" by (simp add: add.commute)
    with D show ?thesis unfolding e by simp
  qed
qed

lemma floor_log2_eq:
  assumes "pow2 e \<le> a" and "a < pow2 (e + 1)"
  shows "floor_log2 a = e"
proof -
  from assms(1) pow2_pos [of e] have "0 < a" by simp
  from floor_log2_bounds [OF this]
  have lo: "pow2 (floor_log2 a) \<le> a" and hi: "a < pow2 (floor_log2 a + 1)" by simp_all
  from lo assms(2) have "pow2 (floor_log2 a) < pow2 (e + 1)" by simp
  then have 1: "floor_log2 a < e + 1" by (rule pow2_less_imp)
  from assms(1) hi have "pow2 e < pow2 (floor_log2 a + 1)" by simp
  then have 2: "e < floor_log2 a + 1" by (rule pow2_less_imp)
  from 1 2 show ?thesis by simp
qed

lemma round_half_even_of_int: "round_half_even (of_int n) = n"
  by (simp add: round_half_even_def)

lemma round_half_even_eq:
  assumes "of_int n - 1 / 2 < q" and "q < of_int n + 1 / 2"
  shows "round_half_even q = n"
proof (cases "of_int n \<le> q")
  case True
  with assms(2) have f: "\<lfloor>q\<rfloor> = n" by (simp add: floor_eq_iff)
  from assms(2) show ?thesis by (simp add: round_half_even_def f)
next
  case False
  with assms(1) have f: "\<lfloor>q\<rfloor> = n - 1" by (simp add: floor_eq_iff)
  from assms(1) False show ?thesis by (simp add: round_half_even_def f)
qed

lemma round_double_normal:
  assumes "pow2 e \<le> \<bar>q\<bar>" and "\<bar>q\<bar> < pow2 (e + 1)" and "- 1022 \<le> e"
    and "r = of_int (round_half_even (\<bar>q\<bar> / pow2 (e - 52))) * pow2 (e - 52)"
    and "r < 2 ^ 1024" and "r \<noteq> 0"
  shows "round_double q = Finite (if 0 < q then r else - r)"
proof -
  from assms(1) pow2_pos [of e] have q0: "q \<noteq> 0" by auto
  have fl: "floor_log2 \<bar>q\<bar> = e" using assms(1,2) by (rule floor_log2_eq)
  have m: "max e (- 1022) = e" using assms(3) by simp
  show ?thesis
    unfolding round_double_def fl m Let_def assms(4) [symmetric]
    using q0 assms(5,6) by simp
qed

lemma pow2_of_nonneg: "0 \<le> k \<Longrightarrow> pow2 k = of_int (2 ^ nat k)"
  by (simp add: pow2_def power_int_def)

lemma round_double_exact:
  assumes "m \<noteq> 0" and "\<bar>m\<bar> < 2 ^ 53" and "- 1074 \<le> p" and "p \<le> 971"
  shows "round_double (of_int m * pow2 p) = Finite (of_int m * pow2 p)"
proof -
  let ?q = "of_int m * pow2 p :: rat"
  let ?n = "\<bar>m\<bar>"
  let ?a = "of_int ?n * pow2 p :: rat"
  let ?b = "bitlen ?n"
  have a: "\<bar>?q\<bar> = ?a"
    using pow2_pos [of p] by (simp add: abs_mult)
  from assms(1) have n: "0 < ?n" by simp
  from bitlen_bounds [OF n] have lo: "2 ^ nat (?b - 1) \<le> ?n" and hi: "?n < 2 ^ nat ?b"
    by simp_all
  from n have b1: "1 \<le> ?b"
    using bitlen_eq_zero_iff [of ?n] bitlen_nonneg [of ?n] by linarith
  have b53: "?b \<le> 53"
  proof (rule ccontr)
    assume "\<not> ?b \<le> 53"
    then have "53 \<le> nat (?b - 1)" by simp
    then have "(2 :: int) ^ 53 \<le> 2 ^ nat (?b - 1)" by (intro power_increasing) simp_all
    with lo assms(2) show False by simp
  qed
  have L: "pow2 (?b - 1 + p) \<le> ?a"
  proof -
    have "pow2 (?b - 1 + p) = of_int (2 ^ nat (?b - 1)) * pow2 p"
      using b1 by (simp add: pow2_add pow2_of_nonneg)
    also have "\<dots> \<le> of_int ?n * pow2 p"
    proof -
      have lo': "(of_int (2 ^ nat (?b - 1)) :: rat) \<le> of_int ?n"
        using lo by (simp only: of_int_le_iff)
      have pp: "0 \<le> pow2 p" using pow2_pos [of p] by simp
      from lo' pp show ?thesis by (rule mult_right_mono)
    qed
    finally show ?thesis .
  qed
  have H: "?a < pow2 (?b - 1 + p + 1)"
  proof -
    have hi': "(of_int ?n :: rat) < of_int (2 ^ nat ?b)"
      using hi by (simp only: of_int_less_iff)
    have "of_int ?n * pow2 p < of_int (2 ^ nat ?b) * pow2 p"
      using hi' pow2_pos [of p] by (rule mult_strict_right_mono)
    also have "\<dots> = pow2 (?b + p)"
      using b1 by (simp add: pow2_add pow2_of_nonneg)
    finally show ?thesis by (simp add: add.commute)
  qed
  have fl: "floor_log2 ?a = ?b - 1 + p" using L H by (rule floor_log2_eq)
  define e where "e = max (?b - 1 + p) (- 1022)"
  have ep: "e - 52 \<le> p" using b53 assms(3) by (simp add: e_def)
  define k where "k = ?n * 2 ^ nat (p - (e - 52))"
  have au: "?a / pow2 (e - 52) = of_int k"
  proof -
    have "pow2 p = pow2 ((p - (e - 52)) + (e - 52))" by simp
    also have "\<dots> = pow2 (p - (e - 52)) * pow2 (e - 52)" by (rule pow2_add)
    finally have "?a / pow2 (e - 52) = of_int ?n * pow2 (p - (e - 52))"
      using pow2_pos [of "e - 52"] by simp
    also have "\<dots> = of_int k"
      using ep by (simp add: k_def pow2_of_nonneg)
    finally show ?thesis .
  qed
  have r: "of_int (round_half_even (?a / pow2 (e - 52))) * pow2 (e - 52) = ?a"
  proof -
    have "of_int (round_half_even (?a / pow2 (e - 52))) * pow2 (e - 52) = of_int k * pow2 (e - 52)"
      unfolding au round_half_even_of_int ..
    also have "\<dots> = ?a / pow2 (e - 52) * pow2 (e - 52)" unfolding au ..
    also have "\<dots> = ?a" using pow2_pos [of "e - 52"] by simp
    finally show ?thesis .
  qed
  have big: "?a < 2 ^ 1024"
  proof -
    have "?b - 1 + p + 1 \<le> 1024" using b53 assms(4) by simp
    then have "pow2 (?b - 1 + p + 1) \<le> pow2 1024" by (rule pow2_mono)
    also have "pow2 1024 = 2 ^ 1024" by (simp add: pow2_def)
    finally show ?thesis using H by simp
  qed
  have a0: "?a \<noteq> 0" using n pow2_pos [of p] by simp
  have q0: "?q \<noteq> 0" using assms(1) pow2_pos [of p] by simp
  have sq: "(if 0 < ?q then ?a else - ?a) = ?q"
    using pow2_pos [of p] by (auto simp: zero_less_mult_iff abs_if)
  show ?thesis
    unfolding round_double_def a fl e_def [symmetric] Let_def r
    using q0 big a0 sq by (simp del: of_int_abs)
qed

section \<open>Float operations on finite numbers\<close>

lemma round_double_int:
  assumes "\<bar>n\<bar> < 2 ^ 53"
  shows "round_double (of_int n) = Finite (of_int n)"
proof (cases "n = 0")
  case True
  then show ?thesis by (simp add: round_double_def)
next
  case False
  from round_double_exact [OF False assms, of 0] show ?thesis by (simp add: pow2_def)
qed

lemma round_double_dyadic:
  assumes "\<bar>m\<bar> < 2 ^ 53" and "k \<le> 1074"
  shows "round_double (of_int m / 2 ^ k) = Finite (of_int m / 2 ^ k)"
proof (cases "m = 0")
  case True
  then show ?thesis by (simp add: round_double_def)
next
  case False
  have p: "pow2 (- int k) = 1 / 2 ^ k"
    by (simp add: pow2_minus pow2_nat)
  from assms(2) have "- 1074 \<le> - int k" and "- int k \<le> 971" by simp_all
  from round_double_exact [OF False assms(1) this] show ?thesis by (simp add: p)
qed

lemma ieee_add_Finite: "ieee_add (Finite a) (Finite b) = round_double (a + b)"
  by (simp add: ieee_add_def is_finite_def fval_def signbit_def zero_of_def round_double_def Let_def)

lemma ieee_sub_Finite: "ieee_sub (Finite a) (Finite b) = round_double (a - b)"
  by (simp add: ieee_sub_def ieee_neg_def ieee_add_def is_finite_def fval_def signbit_def
      zero_of_def round_double_def Let_def)

lemma ieee_mul_Finite:
  assumes "0 \<le> a" and "0 \<le> b"
  shows "ieee_mul (Finite a) (Finite b) = round_double (a * b)"
  using assms
  by (auto simp: ieee_mul_def is_finite_def fval_def signbit_def zero_of_def round_double_def Let_def)

lemma ieee_div_Finite:
  assumes "a \<noteq> 0" and "b \<noteq> 0"
  shows "ieee_div (Finite a) (Finite b) = round_double (a / b)"
  using assms by (simp add: ieee_div_def is_finite_def is_zero_def fval_def)

lemma signbit_round_double:
  assumes "0 < q"
  shows "\<not> signbit (round_double q)"
proof -
  have "0 \<le> rat_of_int (round_half_even (\<bar>q\<bar> / u)) * u" if "0 < u" for u
  proof -
    from assms that have "0 \<le> \<bar>q\<bar> / u" by simp
    then have "0 \<le> \<lfloor>\<bar>q\<bar> / u\<rfloor>" by simp
    then have "0 \<le> round_half_even (\<bar>q\<bar> / u)"
      by (simp add: round_half_even_def Let_def)
    with that show ?thesis by simp
  qed
  from this [OF pow2_pos] assms show ?thesis
    by (simp add: round_double_def Let_def signbit_def not_less)
qed

lemma py_floordiv_nonneg:
  assumes b: "0 < b" and a: "0 \<le> a"
    and n1: "of_int n \<le> a / b" and n2: "a / b < of_int n + 1"
    and nb: "round_double (of_int n * b) = Finite (of_int n * b)"
    and n53: "n < 2 ^ 53"
  shows "py_floordiv (Finite a) (Finite b) = Inr (Finite (of_int n))"
proof -
  from a b have "0 \<le> a / b" by simp
  with n2 have "(0 :: rat) < of_int n + 1" by simp
  then have "(0 :: rat) < of_int (n + 1)" by simp
  then have "0 < n + 1" by (simp only: of_int_0_less_iff)
  then have n0: "0 \<le> n" by simp
  have t: "c_trunc (a / b) = n"
    using \<open>0 \<le> a / b\<close> n1 n2 by (simp add: c_trunc_def floor_eq_iff)
  define r where "r = a - of_int n * b"
  from n1 b have r0: "0 \<le> r" by (simp add: r_def field_simps)
  from n2 b have rb: "r < b" by (simp add: r_def field_simps)
  have m: "c_fmod (Finite a) (Finite b) = (if r = 0 then Finite 0 else Finite r)"
    using b a by (simp add: c_fmod_def is_finite_def is_zero_def fval_def t r_def zero_of_def
        signbit_def Let_def not_less)
  have s: "ieee_sub (Finite a) (if r = 0 then Finite 0 else Finite r) = Finite (of_int n * b)"
  proof (cases "r = 0")
    case True
    then have "a = of_int n * b" by (simp add: r_def)
    with True nb show ?thesis by (simp add: ieee_sub_Finite)
  next
    case False
    have "a - r = of_int n * b" by (simp add: r_def)
    with False nb show ?thesis by (simp add: ieee_sub_Finite)
  qed
  have rn: "round_double (of_int n) = Finite (of_int n)"
    using n0 n53 by (intro round_double_int) simp
  have d0: "ieee_div (Finite (of_int n * b)) (Finite b) = Finite (of_int n)"
  proof (cases "n = 0")
    case True
    then show ?thesis
      using b by (simp add: ieee_div_def is_finite_def is_zero_def fval_def zero_of_def signbit_def)
  next
    case False
    with b have "of_int n * b \<noteq> 0" by simp
    from ieee_div_Finite [OF this] b rn show ?thesis by simp
  qed
  have lt: "c_lt0 (Finite b) = c_lt0 (if r = 0 then Finite 0 else Finite r)"
    using b r0 by (simp add: c_lt0_def not_less)
  have sg: "\<not> signbit (ieee_div (Finite a) (Finite b))"
  proof (cases "a = 0")
    case True
    then show ?thesis
      using b by (simp add: ieee_div_def is_finite_def is_zero_def fval_def zero_of_def signbit_def)
  next
    case False
    with a b have "0 < a / b" by simp
    from signbit_round_double [OF this] ieee_div_Finite [OF False] b show ?thesis by simp
  qed
  have fl: "c_floor (Finite (of_int n)) = Finite (of_int n)"
    by (simp add: c_floor_def)
  have gh: "\<not> c_gt_half (ieee_sub (Finite (of_int n)) (Finite (of_int n)))"
    by (simp add: ieee_sub_Finite round_double_def c_gt_half_def)
  have z: "is_zero (Finite (of_int n :: rat)) \<longleftrightarrow> n = 0"
    by (simp add: is_zero_def)
  have zb: "\<not> is_zero (Finite b)" using b by (simp add: is_zero_def)
  show ?thesis
    unfolding py_floordiv_def m s d0 Let_def
    using zb lt sg gh z by (auto simp: zero_of_def fl)
qed

section \<open>The floor division of floats\<close>

lemma round_half_even_err: "\<bar>of_int (round_half_even q) - q\<bar> \<le> 1 / 2"
proof -
  define f where "f = \<lfloor>q\<rfloor>"
  have 1: "of_int f \<le> q" and 2: "q < of_int f + 1" unfolding f_def by linarith+
  consider "q - of_int f < 1 / 2" | "1 / 2 < q - of_int f" | "q - of_int f = 1 / 2" by linarith
  then show ?thesis
  proof cases
    case 1
    then have "round_half_even q = f" by (simp add: round_half_even_def f_def)
    with 1 \<open>of_int f \<le> q\<close> show ?thesis by simp
  next
    case 2
    then have "round_half_even q = f + 1" by (simp add: round_half_even_def f_def)
    with 2 \<open>q < of_int f + 1\<close> show ?thesis by simp
  next
    case 3
    then have "round_half_even q = f \<or> round_half_even q = f + 1"
      by (simp add: round_half_even_def f_def Let_def)
    with 3 show ?thesis by auto
  qed
qed

lemma pow2_sub52: "pow2 (e - 52) = pow2 e / 2 ^ 52"
proof -
  have "pow2 (e - 52) = pow2 (e + - 52)" by simp
  also have "\<dots> = pow2 e * pow2 (- 52)" by (rule pow2_add)
  also have "pow2 (- 52) = 1 / 2 ^ 52" by (simp add: pow2_def)
  finally show ?thesis by simp
qed

lemma round_double_err:
  assumes lo: "pow2 (- 1022) \<le> \<bar>z\<bar>" and hi: "\<bar>z\<bar> < 2 ^ 1023"
  shows "\<exists>r j. round_double z = Finite r \<and> \<bar>r - z\<bar> \<le> \<bar>z\<bar> / 2 ^ 53
           \<and> r = of_int j * pow2 (floor_log2 \<bar>z\<bar> - 52)"
proof -
  define e where "e = floor_log2 \<bar>z\<bar>"
  define u where "u = pow2 (e - 52)"
  define k where "k = round_half_even (\<bar>z\<bar> / u)"
  define r where "r = of_int k * u"
  from lo pow2_pos [of "- 1022"] have z0: "0 < \<bar>z\<bar>" by linarith
  from floor_log2_bounds [OF z0]
  have b1: "pow2 e \<le> \<bar>z\<bar>" and b2: "\<bar>z\<bar> < pow2 (e + 1)" by (simp_all add: e_def)
  from lo b2 have "pow2 (- 1022) < pow2 (e + 1)" by simp
  then have "- 1022 < e + 1" by (rule pow2_less_imp)
  then have e1022: "- 1022 \<le> e" by simp
  have u0: "0 < u" by (simp add: u_def pow2_pos)
  have u2: "u = pow2 e / 2 ^ 52" unfolding u_def by (rule pow2_sub52)
  have "\<bar>of_int k - \<bar>z\<bar> / u\<bar> \<le> 1 / 2" unfolding k_def by (rule round_half_even_err)
  then have "\<bar>of_int k - \<bar>z\<bar> / u\<bar> * u \<le> 1 / 2 * u" using u0 by (simp only: mult_le_cancel_right_pos)
  moreover have "\<bar>of_int k - \<bar>z\<bar> / u\<bar> * u = \<bar>r - \<bar>z\<bar>\<bar>"
  proof -
    have "\<bar>of_int k - \<bar>z\<bar> / u\<bar> * u = \<bar>(of_int k - \<bar>z\<bar> / u) * u\<bar>"
      using u0 by (simp add: abs_mult)
    also have "(of_int k - \<bar>z\<bar> / u) * u = r - \<bar>z\<bar>"
      using u0 by (simp add: r_def field_simps)
    finally show ?thesis .
  qed
  ultimately have er: "\<bar>r - \<bar>z\<bar>\<bar> \<le> u / 2" by simp
  have "u / 2 = pow2 e / 2 ^ 53" by (simp add: u2)
  also have "\<dots> \<le> \<bar>z\<bar> / 2 ^ 53" using b1 by (simp add: divide_right_mono)
  finally have uz: "u / 2 \<le> \<bar>z\<bar> / 2 ^ 53" .
  from er uz have er2: "\<bar>r - \<bar>z\<bar>\<bar> \<le> \<bar>z\<bar> / 2 ^ 53" by simp
  have rpos: "0 < r"
  proof -
    have "\<bar>z\<bar> / 2 ^ 53 < \<bar>z\<bar>" using z0 by simp
    with er2 show ?thesis by linarith
  qed
  have rbig: "r < 2 ^ 1024"
  proof -
    have "\<bar>z\<bar> / 2 ^ 53 < \<bar>z\<bar>" using z0 by simp
    with er2 have "r < 2 * \<bar>z\<bar>" by linarith
    also have "\<dots> < 2 * 2 ^ 1023" using hi by simp
    finally show ?thesis by simp
  qed
  have rd: "round_double z = Finite (if 0 < z then r else - r)"
  proof (rule round_double_normal [where e = e])
    show "r = of_int (round_half_even (\<bar>z\<bar> / pow2 (e - 52))) * pow2 (e - 52)"
      by (simp add: r_def k_def u_def)
    show "r \<noteq> 0" using rpos by simp
  qed (rule b1 b2 e1022 rbig)+
  show ?thesis
  proof (cases "0 < z")
    case True
    with rd have 1: "round_double z = Finite r" by simp
    from True er2 have 2: "\<bar>r - z\<bar> \<le> \<bar>z\<bar> / 2 ^ 53" by simp
    have 3: "r = of_int k * pow2 (floor_log2 \<bar>z\<bar> - 52)" by (simp add: r_def u_def e_def)
    from 1 2 3 show ?thesis by blast
  next
    case False
    with z0 have zn: "z < 0" by simp
    with rd have 1: "round_double z = Finite (- r)" by simp
    from zn er2 have 2: "\<bar>- r - z\<bar> \<le> \<bar>z\<bar> / 2 ^ 53" by (simp add: abs_if split: if_splits)
    have 3: "- r = of_int (- k) * pow2 (floor_log2 \<bar>z\<bar> - 52)" by (simp add: r_def u_def e_def)
    from 1 2 3 show ?thesis by blast
  qed
qed

text \<open>A double of magnitude at least one half is a multiple of \<open>2^(-53)\<close>.\<close>

lemma round_double_grid:
  assumes lo: "1 / 2 \<le> \<bar>z\<bar>" and hi: "\<bar>z\<bar> < 2 ^ 1023"
  shows "\<exists>r i. round_double z = Finite r \<and> \<bar>r - z\<bar> \<le> \<bar>z\<bar> / 2 ^ 53 \<and> r = of_int i / 2 ^ 53"
proof -
  have "pow2 (- 1022) \<le> pow2 (- 1)" by (rule pow2_mono) simp
  also have "pow2 (- 1) = 1 / 2" by (simp add: pow2_def)
  finally have lo': "pow2 (- 1022) \<le> \<bar>z\<bar>" using lo by simp
  from round_double_err [OF lo' hi] obtain r j
    where 1: "round_double z = Finite r" and 2: "\<bar>r - z\<bar> \<le> \<bar>z\<bar> / 2 ^ 53"
      and 3: "r = of_int j * pow2 (floor_log2 \<bar>z\<bar> - 52)" by blast
  define e where "e = floor_log2 \<bar>z\<bar>"
  from lo have z0: "0 < \<bar>z\<bar>" by linarith
  from floor_log2_bounds [OF z0] have b2: "\<bar>z\<bar> < pow2 (e + 1)" by (simp add: e_def)
  have "pow2 (- 1) = 1 / 2" by (simp add: pow2_def)
  with lo b2 have "pow2 (- 1) < pow2 (e + 1)" by simp
  then have "- 1 < e + 1" by (rule pow2_less_imp)
  then have e0: "0 \<le> e + 1" by simp
  have "pow2 (e - 52) = pow2 ((e + 1) + - 53)" by simp
  also have "\<dots> = pow2 (e + 1) * pow2 (- 53)" by (rule pow2_add)
  also have "pow2 (- 53) = 1 / 2 ^ 53" by (simp add: pow2_def)
  also have "pow2 (e + 1) = of_int (2 ^ nat (e + 1))" using e0 by (rule pow2_of_nonneg)
  finally have "r = of_int (j * 2 ^ nat (e + 1)) / 2 ^ 53"
    using 3 by (simp add: e_def)
  with 1 2 show ?thesis by blast
qed

lemma ieee_sub_zero_of:
  assumes "a \<noteq> 0"
  shows "ieee_sub (Finite a) (zero_of s) = round_double a"
  using assms
  by (simp add: ieee_sub_def ieee_neg_def ieee_add_def zero_of_def is_finite_def fval_def)

lemma c_fmod_Finite:
  assumes "c \<noteq> 0"
  shows "c_fmod (Finite a) (Finite c)
           = (if a - of_int (c_trunc (a / c)) * c = 0 then zero_of (a < 0)
              else Finite (a - of_int (c_trunc (a / c)) * c))"
  using assms by (simp add: c_fmod_def is_finite_def is_zero_def fval_def signbit_def Let_def)

text \<open>What is left of the dividend after the remainder is taken away, divided again.\<close>

lemma floordiv_quotient:
  assumes c1: "pow2 (- 1022) \<le> c" and c2: "c \<le> 2 ^ 970"
    and t0: "t \<noteq> 0" and t48: "\<bar>t\<bar> \<le> 2 ^ 48"
  shows "\<exists>d0 i. ieee_div (round_double (of_int t * c)) (Finite c) = Finite d0
           \<and> \<bar>d0 - of_int t\<bar> \<le> 1 / 8 \<and> d0 = of_int i / 2 ^ 53"
proof -
  from c1 pow2_pos [of "- 1022"] have c0: "0 < c" by linarith
  define T where "T = (of_int \<bar>t\<bar> :: rat)"
  from t0 have "1 \<le> \<bar>t\<bar>" by simp
  then have T1: "1 \<le> T" unfolding T_def by (simp only: of_int_1_le_iff)
  from t48 have "of_int \<bar>t\<bar> \<le> (of_int (2 ^ 48) :: rat)" by (simp only: of_int_le_iff)
  then have T48: "T \<le> 2 ^ 48" by (simp add: T_def)
  let ?z1 = "of_int t * c :: rat"
  have a1: "\<bar>?z1\<bar> = T * c" using c0 by (simp add: abs_mult T_def)
  have "1 * c \<le> T * c" using T1 c0 by (intro mult_right_mono) simp_all
  with c1 have lo1: "pow2 (- 1022) \<le> \<bar>?z1\<bar>" unfolding a1 by simp
  have "T * c \<le> 2 ^ 48 * 2 ^ 970" using T48 c2 c0 T1 by (intro mult_mono) simp_all
  also have "\<dots> < (2 :: rat) ^ 1023" by simp
  finally have hi1: "\<bar>?z1\<bar> < 2 ^ 1023" unfolding a1 .
  from round_double_err [OF lo1 hi1] obtain s1 j
    where s1: "round_double ?z1 = Finite s1" and e1: "\<bar>s1 - ?z1\<bar> \<le> \<bar>?z1\<bar> / 2 ^ 53" by blast
  have z1pos: "0 < \<bar>?z1\<bar>" unfolding a1 using T1 c0 by simp
  have s10: "s1 \<noteq> 0"
  proof
    assume "s1 = 0"
    with e1 have "\<bar>?z1\<bar> \<le> \<bar>?z1\<bar> / 2 ^ 53" by simp
    with z1pos show False by simp
  qed
  define z2 where "z2 = s1 / c"
  have d2: "\<bar>z2 - of_int t\<bar> \<le> T / 2 ^ 53"
  proof -
    have "z2 - of_int t = (s1 - ?z1) / c" using c0 by (simp add: z2_def field_simps)
    then have "\<bar>z2 - of_int t\<bar> = \<bar>s1 - ?z1\<bar> / c" using c0 by (simp add: abs_divide)
    also have "\<dots> \<le> (\<bar>?z1\<bar> / 2 ^ 53) / c"
      by (rule divide_right_mono [OF e1]) (use c0 in simp)
    also have "\<dots> = T / 2 ^ 53" unfolding a1 using c0 by simp
    finally show ?thesis .
  qed
  have T': "\<bar>(of_int t :: rat)\<bar> = T" by (simp add: T_def)
  have lo2: "1 / 2 \<le> \<bar>z2\<bar>"
  proof -
    have "T / 2 ^ 53 \<le> T / 2" using T1 by (simp add: field_simps)
    with d2 have "\<bar>z2 - of_int t\<bar> \<le> T / 2" by simp
    with T' have "T / 2 \<le> \<bar>z2\<bar>" by linarith
    with T1 show ?thesis by simp
  qed
  have up2: "\<bar>z2\<bar> \<le> 2 ^ 49"
  proof -
    have "T / 2 ^ 53 \<le> T" using T1 by (simp add: field_simps)
    with d2 T' have "\<bar>z2\<bar> \<le> 2 * T" by linarith
    with T48 show ?thesis by simp
  qed
  then have hi2: "\<bar>z2\<bar> < 2 ^ 1023"
  proof -
    have "(2 :: rat) ^ 49 < 2 ^ 1023" by simp
    with up2 show ?thesis by simp
  qed
  from round_double_grid [OF lo2 hi2] obtain d0 i
    where d0: "round_double z2 = Finite d0" and e2: "\<bar>d0 - z2\<bar> \<le> \<bar>z2\<bar> / 2 ^ 53"
      and g: "d0 = of_int i / 2 ^ 53" by blast
  from c0 have cn: "c \<noteq> 0" by simp
  have q: "ieee_div (round_double ?z1) (Finite c) = Finite d0"
    unfolding s1 ieee_div_Finite [OF s10 cn] z2_def [symmetric] by (rule d0)
  have "\<bar>z2\<bar> / 2 ^ 53 \<le> 2 ^ 49 / 2 ^ 53" using up2 by (simp add: divide_right_mono)
  with e2 have e2': "\<bar>d0 - z2\<bar> \<le> 1 / 16" by simp
  have "T / 2 ^ 53 \<le> 2 ^ 48 / 2 ^ 53" using T48 by (simp add: divide_right_mono)
  with d2 have d2': "\<bar>z2 - of_int t\<bar> \<le> 1 / 32" by simp
  from e2' d2' have "\<bar>d0 - of_int t\<bar> \<le> 1 / 8" by linarith
  with q g show ?thesis by blast
qed

text \<open>One less, when the remainder and the divisor differ in sign.\<close>

lemma floordiv_less_one:
  assumes d0: "\<bar>d0 - of_int t\<bar> \<le> 1 / 8" and t1: "t \<le> - 1" and t48: "\<bar>t\<bar> \<le> 2 ^ 48"
  shows "\<exists>d i. ieee_sub (Finite d0) (Finite 1) = Finite d
           \<and> \<bar>d - of_int (t - 1)\<bar> \<le> 1 / 4 \<and> d = of_int i / 2 ^ 53"
proof -
  define z where "z = d0 - 1"
  from t1 have tr: "(of_int t :: rat) \<le> - 1" by (metis of_int_le_iff of_int_minus of_int_1)
  from t48 t1 have "- (2 ^ 48) \<le> t" by simp
  then have "(of_int (- (2 ^ 48)) :: rat) \<le> of_int t" by (simp only: of_int_le_iff)
  then have tl: "- (2 ^ 48) \<le> (of_int t :: rat)" by simp
  from d0 tr have zu: "z \<le> - 1" unfolding z_def by linarith
  from d0 tl have zl: "- (2 ^ 48) - 2 \<le> z" unfolding z_def by linarith
  from zu have lo: "1 / 2 \<le> \<bar>z\<bar>" by simp
  from zu zl have az: "\<bar>z\<bar> \<le> 2 ^ 48 + 2" by simp
  have "(2 :: rat) ^ 48 + 2 < 2 ^ 1023" by simp
  with az have hi: "\<bar>z\<bar> < 2 ^ 1023" by simp
  from round_double_grid [OF lo hi] obtain d i
    where d: "round_double z = Finite d" and e: "\<bar>d - z\<bar> \<le> \<bar>z\<bar> / 2 ^ 53"
      and g: "d = of_int i / 2 ^ 53" by blast
  have "\<bar>z\<bar> / 2 ^ 53 \<le> (2 ^ 48 + 2) / 2 ^ 53" using az by (simp add: divide_right_mono)
  also have "\<dots> \<le> (1 / 16 :: rat)" by simp
  finally have "\<bar>d - z\<bar> \<le> 1 / 16" using e by simp
  moreover have "(of_int (t - 1) :: rat) = of_int t - 1" by simp
  ultimately have "\<bar>d - of_int (t - 1)\<bar> \<le> 1 / 4" using d0 unfolding z_def by linarith
  moreover have "ieee_sub (Finite d0) (Finite 1) = Finite d"
    unfolding ieee_sub_Finite z_def [symmetric] by (rule d)
  ultimately show ?thesis using g by blast
qed

text \<open>The quotient snapped to the integral value next to it.\<close>

lemma floordiv_snap:
  assumes d: "\<bar>d - of_int N\<bar> \<le> 1 / 4" and N0: "N \<noteq> 0" and N52: "\<bar>N\<bar> < 2 ^ 52"
    and g: "d = of_int i / 2 ^ 53"
  shows "\<not> is_zero (Finite d)
         \<and> (let floordiv = c_floor (Finite d)
            in if c_gt_half (ieee_sub (Finite d) floordiv) then ieee_add floordiv (Finite 1)
               else floordiv) = Finite (of_int N)"
proof -
  from N0 have "1 \<le> \<bar>N\<bar>" by simp
  then have "(1 :: rat) \<le> of_int \<bar>N\<bar>" by (simp only: of_int_1_le_iff)
  then have N1: "1 \<le> \<bar>(of_int N :: rat)\<bar>" by simp
  with d have "d \<noteq> 0" by auto
  then have z: "\<not> is_zero (Finite d)" by (simp add: is_zero_def)
  from N52 have N53: "\<bar>N\<bar> < 2 ^ 53" by simp
  have rn: "round_double (of_int N) = Finite (of_int N)" using N53 by (rule round_double_int)
  have frac: "round_double (d - of_int k) = Finite (d - of_int k)"
    if "0 \<le> d - of_int k" and "d - of_int k < 1" for k :: int
  proof -
    define j where "j = i - k * 2 ^ 53"
    have y: "d - of_int k = of_int j / 2 ^ 53" by (simp add: g j_def field_simps)
    from that(1) have "0 \<le> (of_int j :: rat)" unfolding y by simp
    then have j0: "0 \<le> j" by (simp only: of_int_0_le_iff)
    from that(2) have "(of_int j :: rat) < of_int (2 ^ 53)" unfolding y by simp
    then have j53: "j < 2 ^ 53" by (simp only: of_int_less_iff)
    from j0 j53 have "\<bar>j\<bar> < 2 ^ 53" by simp
    then show ?thesis unfolding y by (rule round_double_dyadic) simp
  qed
  show ?thesis
  proof (cases "of_int N \<le> d")
    case True
    with d have f: "\<lfloor>d\<rfloor> = N" by (simp add: floor_eq_iff)
    from True d have y: "0 \<le> d - of_int N" "d - of_int N < 1" "\<not> 1 / 2 < d - of_int N" by simp_all
    have "ieee_sub (Finite d) (Finite (of_int N)) = Finite (d - of_int N)"
      unfolding ieee_sub_Finite by (rule frac [OF y(1,2)])
    with y(3) z show ?thesis by (simp add: c_floor_def f c_gt_half_def)
  next
    case False
    with d have f: "\<lfloor>d\<rfloor> = N - 1" by (simp add: floor_eq_iff)
    from False d have y: "0 \<le> d - of_int (N - 1)" "d - of_int (N - 1) < 1" "1 / 2 < d - of_int (N - 1)"
      by simp_all
    have s: "ieee_sub (Finite d) (Finite (of_int (N - 1))) = Finite (d - of_int (N - 1))"
      unfolding ieee_sub_Finite by (rule frac [OF y(1,2)])
    have "ieee_add (Finite (of_int (N - 1))) (Finite 1) = round_double (of_int N)"
      unfolding ieee_add_Finite by simp
    with rn have a: "ieee_add (Finite (of_int (N - 1))) (Finite 1) = Finite (of_int N)" by simp
    from y(3) z s a show ?thesis by (simp add: c_floor_def f c_gt_half_def)
  qed
qed

lemma py_floordiv_Finite:
  assumes c0: "0 < c" and t0: "c_trunc (a / c) \<noteq> 0"
  shows "py_floordiv (Finite a) (Finite c)
           = Inr (let r = a - of_int (c_trunc (a / c)) * c;
                      d0 = ieee_div (round_double (of_int (c_trunc (a / c)) * c)) (Finite c);
                      d = (if r < 0 then ieee_sub d0 (Finite 1) else d0)
                  in if is_zero d then zero_of (signbit (ieee_div (Finite a) (Finite c)))
                     else (let floordiv = c_floor d
                           in if c_gt_half (ieee_sub d floordiv) then ieee_add floordiv (Finite 1)
                              else floordiv))"
proof -
  define t where "t = c_trunc (a / c)"
  define r where "r = a - of_int t * c"
  from c0 have cn: "c \<noteq> 0" by simp
  have zc: "\<not> is_zero (Finite c)" using cn by (simp add: is_zero_def)
  have lc: "\<not> c_lt0 (Finite c)" using c0 by (simp add: c_lt0_def)
  have tc: "of_int t * c \<noteq> 0" using t0 cn by (simp add: t_def)
  have fm: "c_fmod (Finite a) (Finite c) = (if r = 0 then zero_of (a < 0) else Finite r)"
    unfolding r_def t_def by (rule c_fmod_Finite [OF cn])
  have sub: "ieee_sub (Finite a) (c_fmod (Finite a) (Finite c)) = round_double (of_int t * c)"
  proof (cases "r = 0")
    case True
    then have a: "a = of_int t * c" by (simp add: r_def)
    with tc have a0: "a \<noteq> 0" by simp
    have m: "c_fmod (Finite a) (Finite c) = zero_of (a < 0)" using True by (simp add: fm)
    show ?thesis unfolding m ieee_sub_zero_of [OF a0] using a by simp
  next
    case False
    have "a - r = of_int t * c" by (simp add: r_def)
    with False show ?thesis by (simp add: fm ieee_sub_Finite)
  qed
  have z: "is_zero (c_fmod (Finite a) (Finite c)) \<longleftrightarrow> r = 0"
    by (simp add: fm is_zero_def zero_of_def)
  have l: "c_lt0 (c_fmod (Finite a) (Finite c)) \<longleftrightarrow> r < 0"
    by (simp add: fm c_lt0_def zero_of_def)
  show ?thesis
    unfolding py_floordiv_def Let_def sub z l t_def [symmetric] r_def [symmetric]
    using zc lc by auto
qed

lemma floor_bound_rat:
  assumes "\<bar>k\<bar> \<le> (2 ^ 48 :: int)"
  shows "\<bar>k\<bar> < 2 ^ 52"
proof -
  have "(2 :: int) ^ 48 < 2 ^ 52" by simp
  with assms show ?thesis by linarith
qed

text \<open>
  Floor division by a positive normal number gives the floor of the exact quotient, as
  long as that is below \<open>2^48\<close> in magnitude.
\<close>

lemma py_floordiv_floor:
  assumes c1: "pow2 (- 1022) \<le> c" and c2: "c \<le> 2 ^ 970" and n48: "\<bar>\<lfloor>a / c\<rfloor>\<bar> < 2 ^ 48"
  shows "py_floordiv (Finite a) (Finite c) = Inr (Finite (of_int \<lfloor>a / c\<rfloor>))"
proof -
  from c1 pow2_pos [of "- 1022"] have c0: "0 < c" by linarith
  define n where "n = \<lfloor>a / c\<rfloor>"
  define t where "t = c_trunc (a / c)"
  define r where "r = a - of_int t * c"
  have n1: "of_int n \<le> a / c" and n2: "a / c < of_int n + 1" unfolding n_def by linarith+
  have r_eq: "r = (a / c - of_int t) * c" using c0 by (simp add: r_def field_simps)
  show ?thesis
  proof (cases "0 \<le> a")
    case True
    with c0 have q0: "0 \<le> a / c" by simp
    then have tn: "t = n" by (simp add: t_def n_def c_trunc_def)
    from q0 have nn: "0 \<le> n" by (simp add: n_def)
    show ?thesis
    proof (cases "n = 0")
      case True
      have "py_floordiv (Finite a) (Finite c) = Inr (Finite (of_int 0))"
      proof (rule py_floordiv_nonneg [OF c0 \<open>0 \<le> a\<close>])
        show "of_int 0 \<le> a / c" using q0 by simp
        show "a / c < of_int 0 + 1" using n2 True by simp
        show "round_double (of_int 0 * c) = Finite (of_int 0 * c)" by (simp add: round_double_def)
      qed simp
      with True show ?thesis by (simp add: n_def)
    next
      case False
      with tn have t0: "c_trunc (a / c) \<noteq> 0" by (simp add: t_def)
      from n48 have t48: "\<bar>n\<bar> \<le> 2 ^ 48" by (simp add: n_def)
      from floordiv_quotient [OF c1 c2 False t48] obtain d0 i
        where q: "ieee_div (round_double (of_int n * c)) (Finite c) = Finite d0"
          and e: "\<bar>d0 - of_int n\<bar> \<le> 1 / 8" and g: "d0 = of_int i / 2 ^ 53" by blast
      from e have e4: "\<bar>d0 - of_int n\<bar> \<le> 1 / 4" by simp
      from floordiv_snap [OF e4 False floor_bound_rat [OF t48] g]
      have z: "\<not> is_zero (Finite d0)"
        and s: "(let floordiv = c_floor (Finite d0)
                 in if c_gt_half (ieee_sub (Finite d0) floordiv) then ieee_add floordiv (Finite 1)
                    else floordiv) = Finite (of_int n)" by simp_all
      have rr: "\<not> a - of_int n * c < 0"
        using n1 c0 by (simp add: field_simps)
      have tt: "c_trunc (a / c) = n" using tn by (simp add: t_def)
      show ?thesis
        unfolding py_floordiv_Finite [OF c0 t0] tt n_def [symmetric]
        using rr q z s by (simp add: Let_def)
    qed
  next
    case False
    then have an: "a < 0" by simp
    with c0 have qn: "a / c < 0" by (simp add: divide_neg_pos)
    then have tc: "t = \<lceil>a / c\<rceil>" by (simp add: t_def c_trunc_def)
    from qn have n_neg: "n \<le> - 1" unfolding n_def by (simp add: floor_le_iff)
    have t_le: "t \<le> 0" unfolding tc using qn by (simp add: ceiling_le_iff)
    have t_hi: "a / c \<le> of_int t" unfolding tc by linarith
    have t_lo: "of_int t - 1 < a / c" unfolding tc by linarith
    have r_le: "r \<le> 0" unfolding r_eq using t_hi c0 by (simp add: mult_le_0_iff)
    show ?thesis
    proof (cases "t = 0")
      case True
      from True t_lo have "- 1 < a / c" by simp
      with qn have nm: "n = - 1" unfolding n_def by (simp add: floor_eq_iff)
      from True have rv: "a - of_int (c_trunc (a / c)) * c = a" by (simp add: t_def)
      from c0 have cn: "c \<noteq> 0" by simp
      have zc: "\<not> is_zero (Finite c)" using cn by (simp add: is_zero_def)
      have fm: "c_fmod (Finite a) (Finite c) = Finite a"
        unfolding c_fmod_Finite [OF cn] rv using an by simp
      have s0: "ieee_sub (Finite a) (Finite a) = Finite 0"
        by (simp add: ieee_sub_Finite round_double_def)
      have d0: "ieee_div (Finite 0) (Finite c) = Finite 0"
        using c0 by (simp add: ieee_div_def is_finite_def is_zero_def fval_def zero_of_def signbit_def)
      have m1: "ieee_sub (Finite 0) (Finite 1) = Finite (- 1)"
        using round_double_int [of "- 1"] by (simp add: ieee_sub_Finite)
      have s1: "ieee_sub (Finite (- 1)) (Finite (- 1)) = Finite 0"
        by (simp add: ieee_sub_Finite round_double_def)
      have "py_floordiv (Finite a) (Finite c) = Inr (Finite (- 1))"
        unfolding py_floordiv_def fm Let_def s0 d0 m1
        using zc an c0
        by (simp add: is_zero_def c_lt0_def c_floor_def s1 c_gt_half_def)
      with nm show ?thesis by (simp add: n_def)
    next
      case False
      then have t0: "c_trunc (a / c) \<noteq> 0" by (simp add: t_def)
      from False t_le have t1: "t \<le> - 1" by simp
      have nt: "n \<le> t" unfolding n_def tc by (rule floor_le_ceiling)
      with t1 n48 have t48: "\<bar>t\<bar> \<le> 2 ^ 48" by (simp add: n_def)
      from floordiv_quotient [OF c1 c2 False t48] obtain d0 i
        where q: "ieee_div (round_double (of_int t * c)) (Finite c) = Finite d0"
          and e: "\<bar>d0 - of_int t\<bar> \<le> 1 / 8" and g: "d0 = of_int i / 2 ^ 53" by blast
      show ?thesis
      proof (cases "r = 0")
        case True
        then have "a / c = of_int t" using c0 by (simp add: r_eq)
        then have nt': "n = t" by (simp add: n_def)
        from e have e4: "\<bar>d0 - of_int t\<bar> \<le> 1 / 4" by simp
        from floordiv_snap [OF e4 False floor_bound_rat [OF t48] g]
        have z: "\<not> is_zero (Finite d0)"
          and s: "(let floordiv = c_floor (Finite d0)
                   in if c_gt_half (ieee_sub (Finite d0) floordiv) then ieee_add floordiv (Finite 1)
                      else floordiv) = Finite (of_int t)" by simp_all
        have rr: "\<not> a - of_int t * c < 0" using True by (simp add: r_def)
        show ?thesis
          unfolding py_floordiv_Finite [OF c0 t0] t_def [symmetric] n_def [symmetric] nt'
          using rr q z s by (simp add: Let_def)
      next
        case False
        with r_le have rn: "a - of_int t * c < 0" by (simp add: r_def)
        then have "a / c < of_int t" using c0 by (simp add: field_simps)
        with t_lo have nt': "n = t - 1" unfolding n_def by (simp add: floor_eq_iff)
        from floordiv_less_one [OF e t1 t48] obtain d j
          where m: "ieee_sub (Finite d0) (Finite 1) = Finite d"
            and e': "\<bar>d - of_int (t - 1)\<bar> \<le> 1 / 4" and g': "d = of_int j / 2 ^ 53" by blast
        from t1 have N0: "t - 1 \<noteq> 0" by simp
        from n48 nt' have N52: "\<bar>t - 1\<bar> < 2 ^ 52"
        proof -
          have "(2 :: int) ^ 48 < 2 ^ 52" by simp
          with n48 nt' show ?thesis unfolding n_def by linarith
        qed
        from floordiv_snap [OF e' N0 N52 g']
        have z: "\<not> is_zero (Finite d)"
          and s: "(let floordiv = c_floor (Finite d)
                   in if c_gt_half (ieee_sub (Finite d) floordiv) then ieee_add floordiv (Finite 1)
                      else floordiv) = Finite (of_int (t - 1))" by simp_all
        show ?thesis
          unfolding py_floordiv_Finite [OF c0 t0] t_def [symmetric] n_def [symmetric] nt'
          using rn q m z s by (simp add: Let_def)
      qed
    qed
  qed
qed

lemma ieee_mul_Finite_nz:
  assumes "a \<noteq> 0" and "b \<noteq> 0"
  shows "ieee_mul (Finite a) (Finite b) = round_double (a * b)"
  using assms by (simp add: ieee_mul_def is_finite_def fval_def)

lemma round_double_near:
  assumes e: "pow2 e \<le> \<bar>q\<bar>" "\<bar>q\<bar> < pow2 (e + 1)" "- 1022 \<le> e"
    and k: "of_int k - 1 / 2 < \<bar>q\<bar> / pow2 (e - 52)" "\<bar>q\<bar> / pow2 (e - 52) < of_int k + 1 / 2"
    and r: "of_int k * pow2 (e - 52) < 2 ^ 1024" "k \<noteq> 0"
  shows "round_double q
           = Finite (if 0 < q then of_int k * pow2 (e - 52) else - (of_int k * pow2 (e - 52)))"
proof -
  have h: "round_half_even (\<bar>q\<bar> / pow2 (e - 52)) = k" using k by (rule round_half_even_eq)
  show ?thesis
  proof (rule round_double_normal [where e = e])
    show "of_int k * pow2 (e - 52) = of_int (round_half_even (\<bar>q\<bar> / pow2 (e - 52))) * pow2 (e - 52)"
      unfolding h ..
    show "of_int k * pow2 (e - 52) \<noteq> 0" using r(2) pow2_pos [of "e - 52"] by simp
  qed (rule e r(1))+
qed

lemma normal_bound: "e \<ge> - 1022 \<Longrightarrow> pow2 e \<le> c \<Longrightarrow> pow2 (- 1022) \<le> c"
  using pow2_mono [of "- 1022" e] by simp

section \<open>Float arithmetic on examples\<close>

lemma round_double_numeral:
  assumes "(numeral k :: int) < 2 ^ 53"
  shows "round_double (numeral k) = Finite (numeral k)"
  using round_double_int [of "numeral k"] assms by simp

lemma window_bounds_exact:
  assumes c: "0 < c" and v: "o' \<le> v"
    and n1: "of_int n \<le> (v - o') / c" and n2: "(v - o') / c < of_int n + 1" and n53: "n < 2 ^ 53"
    and e1: "round_double (v - o') = Finite (v - o')"
    and e2: "round_double (of_int n * c) = Finite (of_int n * c)"
    and e3: "round_double (o' + of_int n * c) = Finite (o' + of_int n * c)"
    and e4: "round_double (2 * c) = Finite (2 * c)"
    and e5: "round_double (o' + of_int n * c + 2 * c) = Finite (o' + of_int n * c + 2 * c)"
  shows "window_bounds (Finite o') (Finite c) (Finite v)
           = Inr (Finite (o' + of_int n * c), Finite (o' + of_int n * c + 2 * c))"
proof -
  from v have d0: "0 \<le> v - o'" by simp
  have s: "py_sub (Finite v) (Finite o') = Finite (v - o')"
    by (simp add: py_sub_def ieee_sub_Finite e1)
  have q: "py_floordiv (Finite (v - o')) (Finite c) = Inr (Finite (of_int n))"
    using c d0 n1 n2 e2 n53 by (rule py_floordiv_nonneg)
  from d0 c have "0 \<le> (v - o') / c" by simp
  with n2 have "(0 :: rat) < of_int (n + 1)" by simp
  then have "0 < n + 1" by (simp only: of_int_0_less_iff)
  then have n0: "(0 :: rat) \<le> of_int n" by simp
  have m1: "py_mul (Finite (of_int n)) (Finite c) = Finite (of_int n * c)"
    using n0 c by (simp add: py_mul_def ieee_mul_Finite e2)
  have m2: "py_mul (Finite 2) (Finite c) = Finite (2 * c)"
    using c by (simp add: py_mul_def ieee_mul_Finite e4)
  have a1: "py_add (Finite o') (Finite (of_int n * c)) = Finite (o' + of_int n * c)"
    by (simp add: py_add_def ieee_add_Finite e3)
  have a2: "py_add (Finite (o' + of_int n * c)) (Finite (2 * c)) = Finite (o' + of_int n * c + 2 * c)"
    by (simp add: py_add_def ieee_add_Finite e5)
  show ?thesis
    unfolding window_bounds_def s q by (simp add: m1 m2 a1 a2)
qed

lemma window_bounds_0_2_5:
  "window_bounds (Finite 0) (Finite 2) (Finite 5) = Inr (Finite 4, Finite 8)"
  using window_bounds_exact [of 2 0 5 2] by (simp add: round_double_numeral)

lemma window_bounds_ex_x:
  "window_bounds (Finite 0) (Finite 2) (Finite 100001) = Inr (Finite 100000, Finite 100004)"
  using window_bounds_exact [of 2 0 100001 50000] by (simp add: round_double_numeral)

lemma window_bounds_ex_y:
  "window_bounds (Finite 0) (Finite 2) (Finite 499998) = Inr (Finite 499998, Finite 500002)"
  using window_bounds_exact [of 2 0 499998 249999] by (simp add: round_double_numeral)

lemma NODATA_value: "NODATA = Finite ((2 ^ 24 - 1) * 2 ^ 104)"
proof -
  let ?q = "34028234663852886 * 10 ^ 22 :: rat"
  have u: "pow2 (127 - 52) = 2 ^ 75" by (simp add: pow2_def)
  have h: "round_half_even (\<bar>?q\<bar> / pow2 (127 - 52)) = (2 ^ 24 - 1) * 2 ^ 29"
    unfolding u by (rule round_half_even_eq) simp_all
  have "round_double ?q = Finite (if 0 < ?q then (2 ^ 24 - 1) * 2 ^ 104 else - ((2 ^ 24 - 1) * 2 ^ 104))"
  proof (rule round_double_normal [where e = 127])
    show "pow2 127 \<le> \<bar>?q\<bar>" by (simp add: pow2_def)
    show "\<bar>?q\<bar> < pow2 (127 + 1)" by (simp add: pow2_def)
    show "(2 ^ 24 - 1) * 2 ^ 104 = rat_of_int (round_half_even (\<bar>?q\<bar> / pow2 (127 - 52))) * pow2 (127 - 52)"
      unfolding h by (simp add: pow2_def)
  qed simp_all
  then show ?thesis by (simp add: NODATA_def)
qed

lemma float_eq_NODATA: "float_eq v NODATA \<longleftrightarrow> v = NODATA"
  unfolding NODATA_value by (cases v) simp_all

lemma elevation_attribute_eq:
  "elevation_attribute v = (if v = NODATA then None else Some v)"
  by (simp add: elevation_attribute_def float_eq_NODATA)

lemma literal_100001_2: "round_double (1000012 / 10) = Finite (6872030136972083 / 2 ^ 36)"
proof -
  let ?q = "1000012 / 10 :: rat"
  have u: "pow2 (16 - 52) = 1 / 2 ^ 36" by (simp add: pow2_def)
  have h: "round_half_even (\<bar>?q\<bar> / pow2 (16 - 52)) = 6872030136972083"
    unfolding u by (rule round_half_even_eq) simp_all
  have "round_double ?q = Finite (if 0 < ?q then 6872030136972083 / 2 ^ 36 else - (6872030136972083 / 2 ^ 36))"
  proof (rule round_double_normal [where e = 16])
    show "pow2 16 \<le> \<bar>?q\<bar>" by (simp add: pow2_def)
    show "\<bar>?q\<bar> < pow2 (16 + 1)" by (simp add: pow2_def)
    show "6872030136972083 / 2 ^ 36 = rat_of_int (round_half_even (\<bar>?q\<bar> / pow2 (16 - 52))) * pow2 (16 - 52)"
      unfolding h by (simp add: pow2_def)
  qed simp_all
  then show ?thesis by simp
qed

lemma literal_499998_7: "round_double (4999987 / 10) = Finite (8589912258170061 / 2 ^ 34)"
proof -
  let ?q = "4999987 / 10 :: rat"
  have u: "pow2 (18 - 52) = 1 / 2 ^ 34" by (simp add: pow2_def)
  have h: "round_half_even (\<bar>?q\<bar> / pow2 (18 - 52)) = 8589912258170061"
    unfolding u by (rule round_half_even_eq) simp_all
  have "round_double ?q = Finite (if 0 < ?q then 8589912258170061 / 2 ^ 34 else - (8589912258170061 / 2 ^ 34))"
  proof (rule round_double_normal [where e = 18])
    show "pow2 18 \<le> \<bar>?q\<bar>" by (simp add: pow2_def)
    show "\<bar>?q\<bar> < pow2 (18 + 1)" by (simp add: pow2_def)
    show "8589912258170061 / 2 ^ 34 = rat_of_int (round_half_even (\<bar>?q\<bar> / pow2 (18 - 52))) * pow2 (18 - 52)"
      unfolding h by (simp add: pow2_def)
  qed simp_all
  then show ?thesis by simp
qed

lemma quotient_x:
  "ieee_div (ieee_sub (Finite (6872030136972083 / 2 ^ 36)) (Finite 100000)) (Finite (1 / 2))
     = Finite (82463372083 / 2 ^ 35)"
proof -
  have d: "6872030136972083 / 2 ^ 36 - 100000 = (of_int 82463372083 / 2 ^ 36 :: rat)" by simp
  have s: "ieee_sub (Finite (6872030136972083 / 2 ^ 36)) (Finite 100000) = Finite (of_int 82463372083 / 2 ^ 36)"
    unfolding ieee_sub_Finite d by (rule round_double_dyadic) simp_all
  have q: "of_int 82463372083 / 2 ^ 36 / (1 / 2) = (of_int 82463372083 / 2 ^ 35 :: rat)" by simp
  have "ieee_div (Finite (of_int 82463372083 / 2 ^ 36)) (Finite (1 / 2)) = round_double (of_int 82463372083 / 2 ^ 36 / (1 / 2))"
    by (rule ieee_div_Finite) simp_all
  also have "\<dots> = Finite (of_int 82463372083 / 2 ^ 35)"
    unfolding q by (rule round_double_dyadic) simp_all
  finally show ?thesis unfolding s by simp
qed

lemma quotient_y:
  "ieee_div (ieee_sub (Finite (8589912258170061 / 2 ^ 34)) (Finite 500000)) (Finite (- 1 / 2))
     = Finite (22333829939 / 2 ^ 33)"
proof -
  have d: "8589912258170061 / 2 ^ 34 - 500000 = (of_int (- 22333829939) / 2 ^ 34 :: rat)" by simp
  have s: "ieee_sub (Finite (8589912258170061 / 2 ^ 34)) (Finite 500000) = Finite (of_int (- 22333829939) / 2 ^ 34)"
    unfolding ieee_sub_Finite d by (rule round_double_dyadic) simp_all
  have q: "of_int (- 22333829939) / 2 ^ 34 / (- 1 / 2) = (of_int 22333829939 / 2 ^ 33 :: rat)" by simp
  have "ieee_div (Finite (of_int (- 22333829939) / 2 ^ 34)) (Finite (- 1 / 2))
          = round_double (of_int (- 22333829939) / 2 ^ 34 / (- 1 / 2))"
    by (rule ieee_div_Finite) simp_all
  also have "\<dots> = Finite (of_int 22333829939 / 2 ^ 33)"
    unfolding q by (rule round_double_dyadic) simp_all
  finally show ?thesis unfolding s by simp
qed

lemma ex_request_window: "request_window (ex_env response) ex_point = Inr ex_window"
  by (simp add: request_window_def ex_env_def ex_point_def ex_window_def
      window_bounds_ex_x window_bounds_ex_y)

lemma window_bounds_ex_x2:
  "window_bounds (Finite 0) (Finite 2) (Finite 100003) = Inr (Finite 100002, Finite 100006)"
  using window_bounds_exact [of 2 0 100003 50001] by (simp add: round_double_numeral)

lemma window_bounds_ex_y2:
  "window_bounds (Finite 0) (Finite 2) (Finite 499997) = Inr (Finite 499996, Finite 500000)"
  using window_bounds_exact [of 2 0 499997 249998] by (simp add: round_double_numeral)

lemma ex_request_window2: "request_window (ex_env response) ex_point2 = Inr ex_window2"
  by (simp add: request_window_def ex_env_def ex_point2_def ex_window2_def
      window_bounds_ex_x2 window_bounds_ex_y2)

lemma round_double_neg_numeral:
  assumes "(numeral k :: int) < 2 ^ 53"
  shows "round_double (- numeral k) = Finite (- numeral k)"
  using round_double_int [of "- numeral k"] assms by simp

lemma round_double_1: "round_double 1 = Finite 1"
  using round_double_int [of 1] by simp

lemma pixel_index_unfold:
  assumes "\<not> is_zero gt1" and "\<not> is_zero gt5"
  shows "pixel_index (gt0, gt1, gt2, gt3, gt4, gt5) (x, y) =
           (case math_floor (ieee_div (ieee_sub x gt0) gt1) of
              Inl e \<Rightarrow> Inl e
            | Inr px \<Rightarrow>
                (case math_floor (ieee_div (ieee_sub y gt3) gt5) of
                   Inl e \<Rightarrow> Inl e
                 | Inr py \<Rightarrow> Inr (px, py)))"
  using assms by (simp add: pixel_index_def py_truediv_def py_sub_def split: sum.splits)

lemma math_floor_finite: "is_finite q \<Longrightarrow> math_floor q = Inr \<lfloor>fval q\<rfloor>"
  by (cases q) (simp_all add: math_floor_def is_finite_def)

lemma ex_pixel_index: "pixel_index (GetGeoTransform ex_dataset) ex_point = Inr (2, 4)"
proof -
  have z: "\<not> is_zero (Finite (1 / 2))" "\<not> is_zero (Finite (- 1 / 2))"
    by (simp_all add: is_zero_def)
  have qx: "ieee_div (ieee_sub (Finite 100001) (Finite 100000)) (Finite (1 / 2)) = Finite 2"
    by (simp add: ieee_sub_Finite round_double_1 ieee_div_Finite round_double_numeral)
  have qy: "ieee_div (ieee_sub (Finite 499998) (Finite 500000)) (Finite (- 1 / 2)) = Finite 4"
    by (simp add: ieee_sub_Finite round_double_neg_numeral ieee_div_Finite round_double_numeral)
  have g: "GetGeoTransform ex_dataset
             = (Finite 100000, Finite (1 / 2), Finite 0, Finite 500000, Finite 0, Finite (- 1 / 2))"
    by (simp add: ex_dataset_def)
  show ?thesis
    unfolding g ex_point_def pixel_index_unfold [OF z] qx qy
    by (simp add: math_floor_def fval_def)
qed

lemma double_0_1: "round_double (1 / 10) = Finite (3602879701896397 / 2 ^ 55)"
  using round_double_near [of "- 4" "1 / 10" 7205759403792794] by (simp add: pow2_def)

lemma double_0_9: "round_double (9 / 10) = Finite (8106479329266893 / 2 ^ 53)"
  using round_double_near [of "- 1" "9 / 10" 8106479329266893] by (simp add: pow2_def)

lemma double_1_1: "round_double (11 / 10) = Finite (2476979795053773 / 2 ^ 51)"
  using round_double_near [of 0 "11 / 10" 4953959590107546] by (simp add: pow2_def)

lemma floordiv_1_by_0_1:
  "py_floordiv (Finite 1) (Finite (3602879701896397 / 2 ^ 55)) = Inr (Finite 9)"
proof -
  let ?c = "3602879701896397 / 2 ^ 55 :: rat"
  have f: "\<lfloor>1 / ?c\<rfloor> = 9" by (simp add: floor_eq_iff)
  have "pow2 (- 4) \<le> ?c" by (simp add: pow2_def)
  then have c1: "pow2 (- 1022) \<le> ?c" by (rule normal_bound [rotated]) simp
  have c2: "?c \<le> 2 ^ 970" by simp
  have n: "\<bar>\<lfloor>1 / ?c\<rfloor>\<bar> < 2 ^ 48" unfolding f by simp
  from py_floordiv_floor [OF c1 c2 n] show ?thesis unfolding f by simp
qed

lemma window_0_1:
  "window_bounds (Finite 0) (Finite (3602879701896397 / 2 ^ 55)) (Finite 1)
     = Inr (Finite (8106479329266893 / 2 ^ 53), Finite (2476979795053773 / 2 ^ 51))"
proof -
  let ?c = "3602879701896397 / 2 ^ 55 :: rat"
  have s: "py_sub (Finite 1) (Finite 0) = Finite 1"
    using round_double_int [of 1] by (simp add: py_sub_def ieee_sub_Finite)
  have m: "py_mul (Finite 9) (Finite ?c) = Finite (8106479329266893 / 2 ^ 53)"
    unfolding py_mul_def
    using round_double_near [of "- 1" "9 * ?c" 8106479329266893]
    by (simp add: ieee_mul_Finite_nz pow2_def)
  have a: "py_add (Finite 0) (Finite (8106479329266893 / 2 ^ 53)) = Finite (8106479329266893 / 2 ^ 53)"
    using round_double_dyadic [of 8106479329266893 53] by (simp add: py_add_def ieee_add_Finite)
  have m2: "py_mul (Finite 2) (Finite ?c) = Finite (3602879701896397 / 2 ^ 54)"
    unfolding py_mul_def
    using round_double_dyadic [of 3602879701896397 54] by (simp add: ieee_mul_Finite_nz)
  have a2: "py_add (Finite (8106479329266893 / 2 ^ 53)) (Finite (3602879701896397 / 2 ^ 54))
              = Finite (2476979795053773 / 2 ^ 51)"
    unfolding py_add_def ieee_add_Finite
    using round_double_near [of 0 "8106479329266893 / 2 ^ 53 + 3602879701896397 / 2 ^ 54" 4953959590107546]
    by (simp add: pow2_def)
  show ?thesis
    unfolding window_bounds_def s floordiv_1_by_0_1 by (simp only: sum.case Let_def m a m2 a2)
qed

lemma quotient_1_by_0_1:
  "py_truediv (py_sub (Finite 1) (Finite 0)) (Finite (3602879701896397 / 2 ^ 55)) = Inr (Finite 10)"
proof -
  have s: "py_sub (Finite 1) (Finite 0) = Finite 1"
    using round_double_int [of 1] by (simp add: py_sub_def ieee_sub_Finite)
  have "round_double (1 / (3602879701896397 / 2 ^ 55)) = Finite 10"
    using round_double_near [of 3 "1 / (3602879701896397 / 2 ^ 55)" 5629499534213120]
    by (simp add: pow2_def)
  moreover have "ieee_div (Finite 1) (Finite (3602879701896397 / 2 ^ 55))
                   = round_double (1 / (3602879701896397 / 2 ^ 55))"
    by (rule ieee_div_Finite) simp_all
  ultimately have d: "ieee_div (Finite 1) (Finite (3602879701896397 / 2 ^ 55)) = Finite 10"
    by (simp only:)
  show ?thesis unfolding s py_truediv_def d by (simp add: is_zero_def)
qed

lemma product_10_by_0_1:
  "py_add (Finite 0) (py_mul (Finite 10) (Finite (3602879701896397 / 2 ^ 55))) = Finite 1"
proof -
  have m: "py_mul (Finite 10) (Finite (3602879701896397 / 2 ^ 55)) = Finite 1"
    unfolding py_mul_def
    using round_double_near [of 0 "10 * (3602879701896397 / 2 ^ 55)" 4503599627370496]
    by (simp add: ieee_mul_Finite_nz pow2_def)
  show ?thesis
    unfolding m using round_double_int [of 1] by (simp add: py_add_def ieee_add_Finite)
qed

lemma window_bounds_0_2_m5:
  "window_bounds (Finite 0) (Finite 2) (Finite (- 5)) = Inr (Finite (- 6), Finite (- 2))"
proof -
  have s: "py_sub (Finite (- 5)) (Finite 0) = Finite (- 5)"
    using round_double_int [of "- 5"] by (simp add: py_sub_def ieee_sub_Finite)
  have f: "\<lfloor>- 5 / 2 :: rat\<rfloor> = - 3" by (simp add: floor_eq_iff)
  have "pow2 1 \<le> 2" by (simp add: pow2_def)
  then have c1: "pow2 (- 1022) \<le> 2" by (rule normal_bound [rotated]) simp
  have n: "\<bar>\<lfloor>- 5 / 2 :: rat\<rfloor>\<bar> < 2 ^ 48" unfolding f by simp
  from py_floordiv_floor [OF c1 _ n] have q: "py_floordiv (Finite (- 5)) (Finite 2) = Inr (Finite (- 3))"
    unfolding f by simp
  have m: "py_mul (Finite (- 3)) (Finite 2) = Finite (- 6)"
    using round_double_int [of "- 6"] by (simp add: py_mul_def ieee_mul_Finite_nz)
  have a: "py_add (Finite 0) (Finite (- 6)) = Finite (- 6)"
    using round_double_int [of "- 6"] by (simp add: py_add_def ieee_add_Finite)
  have m2: "py_mul (Finite 2) (Finite 2) = Finite 4"
    using round_double_int [of 4] by (simp add: py_mul_def ieee_mul_Finite_nz)
  have a2: "py_add (Finite (- 6)) (Finite 4) = Finite (- 2)"
    using round_double_int [of "- 2"] by (simp add: py_add_def ieee_add_Finite)
  show ?thesis unfolding window_bounds_def s q by (simp add: m a m2 a2)
qed

lemma ex_pixel_index2: "pixel_index (GetGeoTransform ex_dataset) ex_point2 = Inr (6, 6)"
proof -
  have z: "\<not> is_zero (Finite (1 / 2))" "\<not> is_zero (Finite (- 1 / 2))"
    by (simp_all add: is_zero_def)
  have qx: "ieee_div (ieee_sub (Finite 100003) (Finite 100000)) (Finite (1 / 2)) = Finite 6"
    by (simp add: ieee_sub_Finite ieee_div_Finite round_double_numeral)
  have qy: "ieee_div (ieee_sub (Finite 499997) (Finite 500000)) (Finite (- 1 / 2)) = Finite 6"
    by (simp add: ieee_sub_Finite round_double_neg_numeral ieee_div_Finite round_double_numeral)
  have g: "GetGeoTransform ex_dataset
             = (Finite 100000, Finite (1 / 2), Finite 0, Finite 500000, Finite 0, Finite (- 1 / 2))"
    by (simp add: ex_dataset_def)
  show ?thesis
    unfolding g ex_point2_def pixel_index_unfold [OF z] qx qy
    by (simp add: math_floor_def fval_def)
qed

section \<open>Boundary detection\<close>

lemma find_rev_upt_Suc:
  assumes "\<not> P (Suc m)" and "P m"
  shows "find P (rev [0..<Suc (Suc m)]) = Some m"
  using assms by simp

lemma get_boundary_token:
  assumes "LF \<notin> set tok"
  shows "get_boundary (CRLF @ ''--'' @ tok @ CRLF @ rest) = Bytes (''--'' @ tok)"
proof -
  let ?r = "tok @ CRLF @ rest"
  have tw: "takeWhile (\<lambda>c. c \<noteq> LF) ?r = tok @ [CR]"
  proof -
    have "\<And>x. x \<in> set tok \<Longrightarrow> x \<noteq> LF" using assms by auto
    then have "takeWhile (\<lambda>c. c \<noteq> LF) ?r = tok @ takeWhile (\<lambda>c. c \<noteq> LF) (CRLF @ rest)"
      by (rule takeWhile_append2)
    then show ?thesis by simp
  qed
  have n: "length (takeWhile (\<lambda>c. c \<noteq> LF) ?r) = Suc (length tok)"
    unfolding tw by simp
  have a: "\<not> take 2 (drop (Suc (length tok)) ?r) = CRLF"
    by (simp add: numeral_2_eq_2)
  have b: "take 2 (drop (length tok) ?r) = CRLF"
    by (simp add: numeral_2_eq_2)
  have f: "find (\<lambda>k. take 2 (drop k ?r) = CRLF) (rev [0..<Suc (Suc (length tok))]) = Some (length tok)"
    using a b by (rule find_rev_upt_Suc)
  have d: "drop 4 (CRLF @ ''--'' @ tok @ CRLF @ rest) = ?r"
    by simp
  have t: "take 4 (CRLF @ ''--'' @ tok @ CRLF @ rest) = CRLF @ ''--''"
    by simp
  show ?thesis
    unfolding get_boundary_def t d Let_def n f by simp
qed

text \<open>
  C8. For every buffer that begins with \<open>\r\n--abc123\r\n\<close>, \<open>get_boundary\<close> returns the
  bytes \<open>--abc123\<close>: the matched group, with its two dashes and without the line breaks
  around it.
\<close>

theorem get_boundary_abc123:
  "get_boundary (CRLF @ ''--abc123'' @ CRLF @ rest) = Bytes ''--abc123''"
proof -
  have "LF \<notin> set ''abc123''" by simp
  from get_boundary_token [OF this, of rest] show ?thesis by simp
qed

section \<open>Splitting at the delimiter\<close>





















lemma parse_response_Bytes:
  assumes "get_boundary body = Bytes b"
  shows "parse_response lib body = parse_parts lib (slice_1_m1 (split_from (CRLF @ b) [] body))"
  unfolding parse_response_def assms Let_def by (simp add: bytes_split_def)

lemma parse_response_Str:
  assumes "get_boundary body = Str s"
  shows "parse_response lib body = Inl TypeError"
  unfolding parse_response_def assms Let_def by simp


section \<open>A buffer without a boundary line\<close>

text \<open>
  C6. A buffer that does not begin with a line matching the pattern has no boundary:
  \<open>get_boundary\<close> returns the empty \<open>str\<close>. The property asks that \<open>parse_response\<close> then
  completes with a result list. It does not: joining \<open>b"\r\n"\<close> with a \<open>str\<close> raises
  \<open>TypeError\<close> (lemma \<open>parse_response_Str\<close> for every such buffer); here on a multipart
  body that lacks the leading line break.
\<close>

theorem parse_response_without_boundary:
  "get_boundary ex_no_leading_crlf = Str []
   \<and> parse_response ascii_library ex_no_leading_crlf = Inl TypeError"
  by code_simp

section \<open>The round trip of a synthetic buffer\<close>




section \<open>Fragments without a separator\<close>

lemma parse_parts_skip:
  assumes "\<not> bytes_in (CRLF @ CRLF) p"
  shows "parse_parts lib (xs @ p # ys) = parse_parts lib (xs @ ys)"
proof (induction xs)
  case Nil
  from assms show ?case by simp
next
  case (Cons a xs)
  show ?case by (simp only: append_Cons parse_parts.simps Cons.IH)
qed

lemma parse_parts_records:
  assumes "list_all2 (\<lambda>q it. parse_part lib q = Inr it) (filter (bytes_in (CRLF @ CRLF)) ps) its"
  shows "parse_parts lib ps = Inr its"
  using assms
proof (induction ps arbitrary: its)
  case Nil
  then show ?case by simp
next
  case (Cons q ps)
  show ?case
  proof (cases "bytes_in (CRLF @ CRLF) q")
    case True
    with Cons.prems obtain it its' where its: "its = it # its'"
      and q: "parse_part lib q = Inr it"
      and r: "list_all2 (\<lambda>q it. parse_part lib q = Inr it) (filter (bytes_in (CRLF @ CRLF)) ps) its'"
      by (auto simp: list_all2_Cons1)
    from Cons.IH [OF r] True q its show ?thesis by simp
  next
    case False
    with Cons.prems Cons.IH [of its] show ?thesis by simp
  qed
qed

text \<open>
  C7. Let \<open>p\<close> be one of the fragments between the boundaries of a buffer, and let \<open>p\<close> not
  contain \<open>\r\n\r\n\<close>. Then \<open>parse_response\<close> does what its loop does on the other
  fragments alone: \<open>p\<close> adds no record and raises nothing. If every fragment that holds
  the separator parses to a record, the result is the list of these records, in order.
\<close>

theorem parse_response_skips_fragment:
  assumes "get_boundary body = Bytes b"
    and "bytes_split body (CRLF @ b) = Inr fs"
    and "slice_1_m1 fs = xs @ p # ys"
    and "\<not> bytes_in (CRLF @ CRLF) p"
  shows "parse_response lib body = parse_parts lib (xs @ ys)
         \<and> (list_all2 (\<lambda>q it. parse_part lib q = Inr it)
               (filter (bytes_in (CRLF @ CRLF)) (xs @ ys)) its
              \<longrightarrow> parse_response lib body = Inr its)"
proof -
  from assms(2) have fs: "fs = split_from (CRLF @ b) [] body"
    by (simp add: bytes_split_def)
  have 1: "parse_response lib body = parse_parts lib (xs @ ys)"
    unfolding parse_response_Bytes [OF assms(1)] fs [symmetric] assms(3)
    by (rule parse_parts_skip [OF assms(4)])
  have 2: "parse_response lib body = Inr its"
    if "list_all2 (\<lambda>q it. parse_part lib q = Inr it) (filter (bytes_in (CRLF @ CRLF)) (xs @ ys)) its"
    unfolding 1 using that by (rule parse_parts_records)
  from 1 2 show ?thesis by blast
qed

theorem parse_response_skips_fragment_witness:
  "get_boundary ex_body = Bytes ''--x''
   \<and> bytes_split ex_body (CRLF @ ''--x'')
       = Inr [[], CRLF @ ''junk'', CRLF @ ''A: b'' @ CRLF @ CRLF @ ''data'', ''--'' @ CRLF]
   \<and> slice_1_m1 [[], CRLF @ ''junk'', CRLF @ ''A: b'' @ CRLF @ CRLF @ ''data'', ''--'' @ CRLF]
       = [] @ (CRLF @ ''junk'') # [CRLF @ ''A: b'' @ CRLF @ CRLF @ ''data'']
   \<and> \<not> bytes_in (CRLF @ CRLF) (CRLF @ ''junk'')
   \<and> list_all2 (\<lambda>q it. parse_part ascii_library q = Inr it)
        (filter (bytes_in (CRLF @ CRLF)) ([] @ [CRLF @ ''A: b'' @ CRLF @ CRLF @ ''data'']))
        [\<lparr>headers = [(''a'', ''A'', ''b'')], content = ''data''\<rparr>]
   \<and> parse_response ascii_library ex_body
       = Inr [\<lparr>headers = [(''a'', ''A'', ''b'')], content = ''data''\<rparr>]"
proof -
  have h1: "get_boundary ex_body = Bytes ''--x''" by code_simp
  have h2: "bytes_split ex_body (CRLF @ ''--x'')
              = Inr [[], CRLF @ ''junk'', CRLF @ ''A: b'' @ CRLF @ CRLF @ ''data'', ''--'' @ CRLF]"
    by code_simp
  have h3: "slice_1_m1 [[], CRLF @ ''junk'', CRLF @ ''A: b'' @ CRLF @ CRLF @ ''data'', ''--'' @ CRLF]
       = [] @ (CRLF @ ''junk'') # [CRLF @ ''A: b'' @ CRLF @ CRLF @ ''data'']"
    by (simp add: slice_1_m1_def)
  have h4: "\<not> bytes_in (CRLF @ CRLF) (CRLF @ ''junk'')" by code_simp
  have h5: "list_all2 (\<lambda>q it. parse_part ascii_library q = Inr it)
        (filter (bytes_in (CRLF @ CRLF)) ([] @ [CRLF @ ''A: b'' @ CRLF @ CRLF @ ''data'']))
        [\<lparr>headers = [(''a'', ''A'', ''b'')], content = ''data''\<rparr>]"
    by code_simp
  from parse_response_skips_fragment [OF h1 h2 h3 h4, of ascii_library] h5
  have "parse_response ascii_library ex_body
          = Inr [\<lparr>headers = [(''a'', ''A'', ''b'')], content = ''data''\<rparr>]"
    by blast
  with h1 h2 h3 h4 h5 show ?thesis by blast
qed

section \<open>Coverage extraction\<close>

lemma lower_content_type: "lower ''content-type'' = ''content-type''"
  by (simp add: lower_def lower_byte_def)

lemma cid_getitem_KeyError:
  "cid_getitem d k = Inl e \<Longrightarrow> e = KeyError"
  by (auto simp: cid_getitem_def split: option.splits)

lemma has_content_type_iff:
  "has_content_type part \<longleftrightarrow> cid_getitem (headers part) ''content-type'' \<noteq> Inl KeyError"
  by (simp add: has_content_type_def)

lemma scan_parts_missing:
  assumes "\<not> list_all has_content_type parts"
  shows "scan_parts parts coverage = Inl KeyError"
  using assms
proof (induction parts arbitrary: coverage)
  case Nil
  then show ?case by simp
next
  case (Cons p ps)
  show ?case
  proof (cases "cid_getitem (headers p) ''content-type''")
    case (Inl e)
    then have "e = KeyError" by (rule cid_getitem_KeyError)
    with Inl show ?thesis by simp
  next
    case (Inr ct)
    then have "has_content_type p" by (simp add: has_content_type_iff)
    with Cons.prems have "\<not> list_all has_content_type ps" by simp
    from Cons.IH [OF this] Inr show ?thesis by simp
  qed
qed

lemma scan_parts_last:
  assumes "list_all has_content_type parts"
  shows "scan_parts parts coverage =
           Inr (if filter is_tiff parts = [] then coverage
                else Some (content (last (filter is_tiff parts))))"
  using assms
proof (induction parts arbitrary: coverage)
  case Nil
  show ?case by simp
next
  case (Cons p ps)
  from Cons.prems have hp: "has_content_type p" and hps: "list_all has_content_type ps"
    by simp_all
  from hp obtain ct where ct: "cid_getitem (headers p) ''content-type'' = Inr ct"
    by (cases "cid_getitem (headers p) ''content-type''")
       (auto simp: has_content_type_iff dest: cid_getitem_KeyError)
  show ?case
  proof (cases "ct = ''image/tiff''")
    case True
    with ct have "is_tiff p" by (simp add: is_tiff_def)
    with ct True Cons.IH [OF hps, of "Some (content p)"] show ?thesis by simp
  next
    case False
    with ct have "\<not> is_tiff p" by (simp add: is_tiff_def)
    with ct False Cons.IH [OF hps, of coverage] show ?thesis by simp
  qed
qed

lemma scan_parts_no_tiff:
  assumes "filter is_tiff parts = []" and "scan_parts parts coverage = Inr c"
  shows "c = coverage"
proof (cases "list_all has_content_type parts")
  case True
  from scan_parts_last [OF True, of coverage] assms show ?thesis by simp
next
  case False
  from scan_parts_missing [OF False, of coverage] assms(2) show ?thesis by simp
qed

lemma coverage_last:
  assumes "list_all has_content_type parts"
  shows "get_ahn_val_coverage parts =
           (if filter is_tiff parts = [] then Inl UnboundLocalError
            else Inr (content (last (filter is_tiff parts))))"
  unfolding get_ahn_val_coverage_def scan_parts_last [OF assms]
  by (simp add: read_local_def)

lemma coverage_none:
  assumes "filter is_tiff parts = []"
  shows "get_ahn_val_coverage parts = Inl KeyError \<or> get_ahn_val_coverage parts = Inl UnboundLocalError"
proof (cases "list_all has_content_type parts")
  case True
  from coverage_last [OF True] assms show ?thesis by simp
next
  case False
  from scan_parts_missing [OF False, of None] show ?thesis
    by (simp add: get_ahn_val_coverage_def)
qed

lemma coverage_missing:
  assumes "\<not> list_all has_content_type parts"
  shows "get_ahn_val_coverage parts = Inl KeyError"
  using scan_parts_missing [OF assms, of None] by (simp add: get_ahn_val_coverage_def)


lemma get_ahn_val_parts:
  assumes "request_window env pt = Inr window"
    and "parse_response (py_lib env) (get_request_bytes env window) = Inr parts"
  shows "get_ahn_val env pt =
           (case get_ahn_val_coverage parts of Inl e \<Rightarrow> Inl e | Inr c \<Rightarrow> read_sample env c pt)"
  using assms by (simp add: get_ahn_val_def)

lemma get_ahn_val_read:
  assumes "request_window env pt = Inr window"
    and "parse_response (py_lib env) (get_request_bytes env window) = Inr parts"
    and "get_ahn_val_coverage parts = Inr coverage"
    and "gdal_Open env coverage = Inr ds"
    and "pixel_index (GetGeoTransform ds) pt = Inr (px, py)"
    and "ReadRaster ds px py = Inr structval"
  shows "get_ahn_val env pt = struct_unpack env structval"
  using assms by (simp add: get_ahn_val_parts read_sample_def)

lemma ex_parse_response:
  "parse_response ascii_library (multipart ''wcs'' ex_parts)
     = Inr [\<lparr>headers = [(''content-type'', ''Content-Type'', ''image/tiff'')], content = ''II*''\<rparr>,
            \<lparr>headers = [(''content-type'', ''Content-Type'', ''text/xml''),
                        (''content-id'', ''Content-ID'', ''gml'')], content = ''<a/>''\<rparr>]"
  by code_simp

lemma ex_coverage:
  "get_ahn_val_coverage
     [\<lparr>headers = [(''content-type'', ''Content-Type'', ''image/tiff'')], content = ''II*''\<rparr>,
      \<lparr>headers = [(''content-type'', ''Content-Type'', ''text/xml''),
                  (''content-id'', ''Content-ID'', ''gml'')], content = ''<a/>''\<rparr>] = Inr ''II*''"
  by code_simp

lemma ex_ReadRaster:
  "ReadRaster ex_dataset 2 4 = Inr [CHR 0xFF, CHR 0xFF, CHR 0x7F, CHR 0x7F]"
  "ReadRaster ex_dataset 6 6 = Inr [CHR 0x00, CHR 0x00, CHR 0x60, CHR 0x40]"
  by (simp_all add: ex_dataset_def)

lemma ex_unpack_values:
  "ex_unpack [CHR 0xFF, CHR 0xFF, CHR 0x7F, CHR 0x7F] = Inr NODATA"
  "ex_unpack [CHR 0x00, CHR 0x00, CHR 0x60, CHR 0x40] = Inr (Finite (7 / 2))"
  by (simp_all add: ex_unpack_def NODATA_value)

lemma ex_env_fields:
  "py_lib (ex_env response) = ascii_library"
  "get_request_bytes (ex_env response) = response"
  "gdal_Open (ex_env response) coverage = Inr ex_dataset"
  "struct_unpack (ex_env response) = ex_unpack"
  by (simp_all add: ex_env_def)

lemma ex_get_ahn_val:
  assumes "response ex_window = multipart ''wcs'' ex_parts"
  shows "get_ahn_val (ex_env response) ex_point = Inr NODATA"
proof -
  have "get_ahn_val (ex_env response) ex_point
          = struct_unpack (ex_env response) [CHR 0xFF, CHR 0xFF, CHR 0x7F, CHR 0x7F]"
  proof (rule get_ahn_val_read)
    show "request_window (ex_env response) ex_point = Inr ex_window"
      by (rule ex_request_window)
    show "parse_response (py_lib (ex_env response)) (get_request_bytes (ex_env response) ex_window)
            = Inr [\<lparr>headers = [(''content-type'', ''Content-Type'', ''image/tiff'')], content = ''II*''\<rparr>,
                   \<lparr>headers = [(''content-type'', ''Content-Type'', ''text/xml''),
                               (''content-id'', ''Content-ID'', ''gml'')], content = ''<a/>''\<rparr>]"
      unfolding ex_env_fields assms by (rule ex_parse_response)
    show "gdal_Open (ex_env response) ''II*'' = Inr ex_dataset" by (rule ex_env_fields)
  qed (rule ex_coverage ex_pixel_index ex_ReadRaster)+
  then show ?thesis by (simp add: ex_env_fields ex_unpack_values)
qed

lemma ex_get_ahn_val2:
  assumes "response ex_window2 = multipart ''wcs'' ex_parts"
  shows "get_ahn_val (ex_env response) ex_point2 = Inr (Finite (7 / 2))"
proof -
  have "get_ahn_val (ex_env response) ex_point2
          = struct_unpack (ex_env response) [CHR 0x00, CHR 0x00, CHR 0x60, CHR 0x40]"
  proof (rule get_ahn_val_read)
    show "request_window (ex_env response) ex_point2 = Inr ex_window2"
      by (rule ex_request_window2)
    show "parse_response (py_lib (ex_env response)) (get_request_bytes (ex_env response) ex_window2)
            = Inr [\<lparr>headers = [(''content-type'', ''Content-Type'', ''image/tiff'')], content = ''II*''\<rparr>,
                   \<lparr>headers = [(''content-type'', ''Content-Type'', ''text/xml''),
                               (''content-id'', ''Content-ID'', ''gml'')], content = ''<a/>''\<rparr>]"
      unfolding ex_env_fields assms by (rule ex_parse_response)
    show "gdal_Open (ex_env response) ''II*'' = Inr ex_dataset" by (rule ex_env_fields)
  qed (rule ex_coverage ex_pixel_index2 ex_ReadRaster)+
  then show ?thesis by (simp add: ex_env_fields ex_unpack_values)
qed

lemma get_ahn_val_no_coverage:
  assumes "request_window env pt = Inr window"
    and "parse_response (py_lib env) (get_request_bytes env window) = Inr parts"
    and "get_ahn_val_coverage parts = Inl e"
  shows "get_ahn_val env pt = Inl e"
  using assms by (simp add: get_ahn_val_parts)

lemma coverage_no_tiff:
  assumes "filter is_tiff parts = []"
  shows "get_ahn_val_coverage parts
           = Inl (if list_all has_content_type parts then UnboundLocalError else KeyError)"
proof (cases "list_all has_content_type parts")
  case True
  from coverage_last [OF True] assms True show ?thesis by simp
next
  case False
  from coverage_missing [OF False] False show ?thesis by simp
qed

text \<open>
  A run of the loop that reaches a feature: the features before it are sampled and the
  run is not cancelled until then.
\<close>

lemma process_features_append:
  assumes "list_all2 (\<lambda>ft v. get_ahn_val env (point ft) = Inr v) pre vs"
    and "\<forall>k. n < k \<and> k \<le> n + length pre \<longrightarrow> \<not> isCanceled k"
  shows "process_features env isCanceled n (pre @ fts)
           = (map2 (\<lambda>ft v. (attributes ft, elevation_attribute v)) pre vs
                @ fst (process_features env isCanceled (n + length pre) fts),
              snd (process_features env isCanceled (n + length pre) fts))"
  using assms
proof (induction pre vs arbitrary: n rule: list_all2_induct)
  case Nil
  show ?case by simp
next
  case (Cons ft pre v vs)
  from Cons.prems have c: "\<not> isCanceled (Suc n)" by simp
  from Cons.prems have "\<forall>k. Suc n < k \<and> k \<le> Suc n + length pre \<longrightarrow> \<not> isCanceled k" by simp
  from Cons.IH [OF this] Cons.hyps(1) c show ?case
    by (simp add: case_prod_unfold)
qed

lemma process_features_raise:
  assumes "get_ahn_val env (point ft) = Inl e"
  shows "process_features env isCanceled n (ft # fts) = ([], Raise e)"
  using assms by simp

lemma processAlgorithm_raise:
  assumes pre: "list_all2 (\<lambda>ft v. get_ahn_val env (point ft) = Inr v) pre vs"
    and c: "\<forall>k \<le> length pre. \<not> isCanceled k"
    and e: "get_ahn_val env (point ft) = Inl e"
  shows "processAlgorithm env isCanceled (pre @ ft # post)
           = (map2 (\<lambda>ft v. (attributes ft, elevation_attribute v)) pre vs,
              Raise (QgsProcessingException e))"
proof -
  from c have c0: "\<not> isCanceled 0"
    and c1: "\<forall>k. 0 < k \<and> k \<le> 0 + length pre \<longrightarrow> \<not> isCanceled k" by simp_all
  show ?thesis
    unfolding processAlgorithm_def process_features_append [OF pre c1]
      process_features_raise [OF e]
    using c0 by simp
qed

text \<open>
  C3, as amended. If every parsed part has a content-type header and some part has the
  content type \<open>image/tiff\<close>, the coverage is the content of the last such part. If no part
  has that content type, whatever the parts are, no coverage is extracted: the scan or the
  read of the unassigned \<open>coverage\<close> raises, the raster is never opened, and
  \<open>processAlgorithm\<close>, having added the features before that one, raises the error again
  as \<open>QgsProcessingException\<close>.
\<close>

theorem coverage_last_match_wins:
  "(list_all has_content_type parts \<longrightarrow> filter is_tiff parts \<noteq> []
      \<longrightarrow> get_ahn_val_coverage parts = Inr (content (last (filter is_tiff parts))))
   \<and> (filter is_tiff parts = []
        \<longrightarrow> get_ahn_val_coverage parts
              = Inl (if list_all has_content_type parts then UnboundLocalError else KeyError))
   \<and> (filter is_tiff parts = []
        \<longrightarrow> list_all2 (\<lambda>ft v. get_ahn_val env (point ft) = Inr v) pre vs
        \<longrightarrow> (\<forall>k \<le> length pre. \<not> isCanceled k)
        \<longrightarrow> request_window env (point ft) = Inr window
        \<longrightarrow> parse_response (py_lib env) (get_request_bytes env window) = Inr parts
        \<longrightarrow> processAlgorithm env isCanceled (pre @ ft # post)
              = (map2 (\<lambda>ft v. (attributes ft, if v = NODATA then None else Some v)) pre vs,
                 Raise (QgsProcessingException
                   (if list_all has_content_type parts then UnboundLocalError else KeyError))))"
proof (intro conjI impI)
  assume "list_all has_content_type parts" and "filter is_tiff parts \<noteq> []"
  then show "get_ahn_val_coverage parts = Inr (content (last (filter is_tiff parts)))"
    by (simp add: coverage_last)
next
  assume "filter is_tiff parts = []"
  then show "get_ahn_val_coverage parts
               = Inl (if list_all has_content_type parts then UnboundLocalError else KeyError)"
    by (rule coverage_no_tiff)
next
  assume n: "filter is_tiff parts = []"
    and pre: "list_all2 (\<lambda>ft v. get_ahn_val env (point ft) = Inr v) pre vs"
    and c: "\<forall>k \<le> length pre. \<not> isCanceled k"
    and w: "request_window env (point ft) = Inr window"
    and p: "parse_response (py_lib env) (get_request_bytes env window) = Inr parts"
  have e: "get_ahn_val env (point ft)
             = Inl (if list_all has_content_type parts then UnboundLocalError else KeyError)"
    by (rule get_ahn_val_no_coverage [OF w p coverage_no_tiff [OF n]])
  have t: "elevation_attribute = (\<lambda>v. if v = NODATA then None else Some v)"
    by (rule ext) (rule elevation_attribute_eq)
  from processAlgorithm_raise [OF pre c e, of post]
  show "processAlgorithm env isCanceled (pre @ ft # post)
          = (map2 (\<lambda>ft v. (attributes ft, if v = NODATA then None else Some v)) pre vs,
             Raise (QgsProcessingException
               (if list_all has_content_type parts then UnboundLocalError else KeyError)))"
    unfolding t .
qed

theorem coverage_last_match_wins_witness:
  "list_all has_content_type [tiff_a, xml_c, tiff_b, xml_c]
   \<and> filter is_tiff [tiff_a, xml_c, tiff_b, xml_c] \<noteq> []
   \<and> get_ahn_val_coverage [tiff_a, xml_c, tiff_b, xml_c] = Inr ''B''
   \<and> filter is_tiff [xml_c] = []
   \<and> get_ahn_val_coverage [xml_c] = Inl UnboundLocalError
   \<and> list_all2 (\<lambda>ft v. get_ahn_val (ex_env ex_response_body) (point ft) = Inr v) [ex_feature] [NODATA]
   \<and> request_window (ex_env ex_response_body) (point ex_feature2) = Inr ex_window2
   \<and> parse_response (py_lib (ex_env ex_response_body))
        (get_request_bytes (ex_env ex_response_body) ex_window2) = Inr [xml_c]
   \<and> processAlgorithm (ex_env ex_response_body) (\<lambda>n. False) [ex_feature, ex_feature2, ex_feature]
       = ([([''mast 12''], None)], Raise (QgsProcessingException UnboundLocalError))"
proof -
  let ?env = "ex_env ex_response_body"
  have h1: "list_all has_content_type [tiff_a, xml_c, tiff_b, xml_c]" by code_simp
  have h2: "filter is_tiff [tiff_a, xml_c, tiff_b, xml_c] \<noteq> []" by code_simp
  have r1: "content (last (filter is_tiff [tiff_a, xml_c, tiff_b, xml_c])) = ''B''" by code_simp
  have h3: "filter is_tiff [xml_c] = []" by code_simp
  have h3': "list_all has_content_type [xml_c]" by code_simp
  have h4: "list_all2 (\<lambda>ft v. get_ahn_val ?env (point ft) = Inr v) [ex_feature] [NODATA]"
    by (simp add: ex_feature_def ex_get_ahn_val ex_response_body_def)
  have h5: "\<forall>k \<le> length [ex_feature]. \<not> (\<lambda>n. False) k" by simp
  have h6: "request_window ?env (point ex_feature2) = Inr ex_window2"
    by (simp add: ex_feature2_def ex_request_window2)
  have b: "ex_response_body ex_window2 = multipart ''wcs'' [(''Content-Type: text/xml'', ''C'')]"
    by (simp add: ex_response_body_def ex_window_def ex_window2_def)
  have h7: "parse_response (py_lib ?env) (get_request_bytes ?env ex_window2) = Inr [xml_c]"
    unfolding ex_env_fields b by code_simp
  have a: "get_ahn_val_coverage [tiff_a, xml_c, tiff_b, xml_c] = Inr ''B''"
    using coverage_last_match_wins [of "[tiff_a, xml_c, tiff_b, xml_c]"] h1 h2 r1 by simp
  from coverage_last_match_wins [of "[xml_c]"] h3
  have "get_ahn_val_coverage [xml_c]
          = Inl (if list_all has_content_type [xml_c] then UnboundLocalError else KeyError)"
    by blast
  then have c: "get_ahn_val_coverage [xml_c] = Inl UnboundLocalError"
    using h3' by (simp only: if_True)
  have d: "processAlgorithm ?env (\<lambda>n. False) ([ex_feature] @ ex_feature2 # [ex_feature])
             = (map2 (\<lambda>ft v. (attributes ft, if v = NODATA then None else Some v)) [ex_feature] [NODATA],
                Raise (QgsProcessingException
                  (if list_all has_content_type [xml_c] then UnboundLocalError else KeyError)))"
    using coverage_last_match_wins [of "[xml_c]" ?env "[ex_feature]" "[NODATA]" "\<lambda>n. False"
        ex_feature2 ex_window2 "[ex_feature]"] h3 h4 h5 h6 h7
    by blast
  have e: "processAlgorithm ?env (\<lambda>n. False) [ex_feature, ex_feature2, ex_feature]
             = ([([''mast 12''], None)], Raise (QgsProcessingException UnboundLocalError))"
    using d h3' by (simp add: ex_feature_def)
  from h1 h2 a h3 c h4 h6 h7 e show ?thesis by blast
qed

text \<open>
  C3 as stated fails on a part list with two \<open>image/tiff\<close> parts and a part that has no
  content-type header: the scan raises \<open>KeyError\<close> and no coverage is extracted. The list
  is what \<open>parse_response\<close> returns for the buffer shown.
\<close>

theorem coverage_last_match_wins_counterexample:
  "parse_response ascii_library
     (multipart ''wcs'' [(''Content-Type: image/tiff'', ''A''), (''content-type: image/tiff'', ''B''),
                         (''Content-ID: x'', ''D'')])
     = Inr [tiff_a, tiff_b, no_ct]
   \<and> filter is_tiff [tiff_a, tiff_b, no_ct] = [tiff_a, tiff_b]
   \<and> get_ahn_val_coverage [tiff_a, tiff_b, no_ct] = Inl KeyError"
  by code_simp

text \<open>
  C10. If some parsed part has no content-type header, the scan of the parts raises
  \<open>KeyError\<close>, whatever the other parts are, and so does the extraction of the coverage:
  the part is not passed over as one that does not match.
\<close>

theorem coverage_scan_KeyError:
  assumes "\<not> list_all has_content_type parts"
  shows "scan_parts parts coverage = Inl KeyError \<and> get_ahn_val_coverage parts = Inl KeyError"
  using scan_parts_missing [OF assms] coverage_missing [OF assms] by simp

theorem coverage_scan_KeyError_witness:
  "\<not> list_all has_content_type [no_ct, tiff_a]
   \<and> scan_parts [no_ct, tiff_a] None = Inl KeyError
   \<and> get_ahn_val_coverage [no_ct, tiff_a] = Inl KeyError"
proof -
  have h: "\<not> list_all has_content_type [no_ct, tiff_a]" by code_simp
  from coverage_scan_KeyError [OF h, of None] h show ?thesis by simp
qed

section \<open>The no-data value\<close>

lemma process_features_written:
  assumes "new_ft \<in> set (fst (process_features env isCanceled n fts))"
  shows "\<exists>ft \<in> set fts. \<exists>v. get_ahn_val env (point ft) = Inr v
           \<and> new_ft = (attributes ft, elevation_attribute v)"
  using assms
proof (induction fts arbitrary: n)
  case Nil
  then show ?case by simp
next
  case (Cons ft fts)
  show ?case
  proof (cases "get_ahn_val env (point ft)")
    case (Inl e)
    with Cons.prems show ?thesis by simp
  next
    case (Inr v)
    show ?thesis
    proof (cases "isCanceled (Suc n)")
      case True
      with Cons.prems Inr show ?thesis by simp
    next
      case False
      with Cons.prems Inr
      have "new_ft = (attributes ft, elevation_attribute v)
            \<or> new_ft \<in> set (fst (process_features env isCanceled (Suc n) fts))"
        by (simp add: case_prod_unfold)
      then show ?thesis
      proof
        assume "new_ft = (attributes ft, elevation_attribute v)"
        with Inr show ?thesis by auto
      next
        assume "new_ft \<in> set (fst (process_features env isCanceled (Suc n) fts))"
        from Cons.IH [OF this] show ?thesis by auto
      qed
    qed
  qed
qed

lemma processAlgorithm_written:
  assumes "new_ft \<in> set (fst (processAlgorithm env isCanceled fts))"
  shows "\<exists>ft \<in> set fts. \<exists>v. get_ahn_val env (point ft) = Inr v
           \<and> new_ft = (attributes ft, elevation_attribute v)"
proof (cases "isCanceled 0")
  case True
  with assms show ?thesis by (simp add: processAlgorithm_def)
next
  case False
  with assms have "new_ft \<in> set (fst (process_features env isCanceled 0 fts))"
    by (simp add: processAlgorithm_def case_prod_unfold)
  then show ?thesis by (rule process_features_written)
qed

lemma processAlgorithm_complete:
  assumes s: "list_all2 (\<lambda>ft v. get_ahn_val env (point ft) = Inr v) fts vs"
    and c: "\<forall>k \<le> length fts. \<not> isCanceled k"
  shows "processAlgorithm env isCanceled fts
           = (map2 (\<lambda>ft v. (attributes ft, elevation_attribute v)) fts vs, Return_results)"
proof -
  from c have c0: "\<not> isCanceled 0"
    and c1: "\<forall>k. 0 < k \<and> k \<le> 0 + length fts \<longrightarrow> \<not> isCanceled k" by simp_all
  from process_features_append [OF s c1, of "[]"] c0 show ?thesis
    by (simp add: processAlgorithm_def)
qed

text \<open>
  C4. The value that \<open>get_ahn_val\<close> returns is what \<open>struct.unpack\<close> gives for the bytes of
  the pixel read from band 1 at the pixel index of the point, as it is, the no-data value
  included. In a run of \<open>processAlgorithm\<close> that is not cancelled and in which every
  feature is sampled, the feature written for each input feature has \<open>None\<close> for the
  elevation when the sample equals \<open>3.4028234663852886e38\<close> and the sample itself
  otherwise. In every run, cancelled or failing ones included, each feature added to the
  sink is such a translation of the sample of an input feature, so the no-data value is
  never written as a number.
\<close>

theorem sentinel_translation:
  "(request_window env pt = Inr window
      \<longrightarrow> parse_response (py_lib env) (get_request_bytes env window) = Inr parts
      \<longrightarrow> get_ahn_val_coverage parts = Inr coverage
      \<longrightarrow> gdal_Open env coverage = Inr ds
      \<longrightarrow> pixel_index (GetGeoTransform ds) pt = Inr (px, py)
      \<longrightarrow> ReadRaster ds px py = Inr structval
      \<longrightarrow> get_ahn_val env pt = struct_unpack env structval)
   \<and> (list_all2 (\<lambda>ft v. get_ahn_val env (point ft) = Inr v) fts vs
        \<longrightarrow> (\<forall>k \<le> length fts. \<not> isCanceled k)
        \<longrightarrow> processAlgorithm env isCanceled fts
              = (map2 (\<lambda>ft v. (attributes ft, if v = NODATA then None else Some v)) fts vs,
                 Return_results))
   \<and> (\<forall>new_ft \<in> set (fst (processAlgorithm env isCanceled fts)).
        snd new_ft \<noteq> Some NODATA
        \<and> (\<exists>ft \<in> set fts. \<exists>v. get_ahn_val env (point ft) = Inr v
              \<and> new_ft = (attributes ft, if v = NODATA then None else Some v)))"
proof (intro conjI impI ballI)
  assume "request_window env pt = Inr window"
    and "parse_response (py_lib env) (get_request_bytes env window) = Inr parts"
    and "get_ahn_val_coverage parts = Inr coverage"
    and "gdal_Open env coverage = Inr ds"
    and "pixel_index (GetGeoTransform ds) pt = Inr (px, py)"
    and "ReadRaster ds px py = Inr structval"
  then show "get_ahn_val env pt = struct_unpack env structval"
    by (rule get_ahn_val_read)
next
  assume "list_all2 (\<lambda>ft v. get_ahn_val env (point ft) = Inr v) fts vs"
    and "\<forall>k \<le> length fts. \<not> isCanceled k"
  from processAlgorithm_complete [OF this]
  show "processAlgorithm env isCanceled fts
          = (map2 (\<lambda>ft v. (attributes ft, if v = NODATA then None else Some v)) fts vs,
             Return_results)"
    by (simp add: elevation_attribute_eq)
next
  fix new_ft
  assume w: "new_ft \<in> set (fst (processAlgorithm env isCanceled fts))"
  from processAlgorithm_written [OF w]
  show "snd new_ft \<noteq> Some NODATA"
    by (auto simp: elevation_attribute_eq split: if_splits)
next
  fix new_ft
  assume w: "new_ft \<in> set (fst (processAlgorithm env isCanceled fts))"
  from processAlgorithm_written [OF w]
  show "\<exists>ft \<in> set fts. \<exists>v. get_ahn_val env (point ft) = Inr v
          \<and> new_ft = (attributes ft, if v = NODATA then None else Some v)"
    by (simp add: elevation_attribute_eq)
qed

theorem sentinel_translation_witness:
  "request_window (ex_env (\<lambda>window. multipart ''wcs'' ex_parts)) ex_point = Inr ex_window
   \<and> gdal_Open (ex_env (\<lambda>window. multipart ''wcs'' ex_parts)) ''II*'' = Inr ex_dataset
   \<and> pixel_index (GetGeoTransform ex_dataset) ex_point = Inr (2, 4)
   \<and> ReadRaster ex_dataset 2 4 = Inr [CHR 0xFF, CHR 0xFF, CHR 0x7F, CHR 0x7F]
   \<and> get_ahn_val (ex_env (\<lambda>window. multipart ''wcs'' ex_parts)) ex_point
       = struct_unpack (ex_env (\<lambda>window. multipart ''wcs'' ex_parts)) [CHR 0xFF, CHR 0xFF, CHR 0x7F, CHR 0x7F]
   \<and> list_all2 (\<lambda>ft v. get_ahn_val (ex_env (\<lambda>window. multipart ''wcs'' ex_parts)) (point ft) = Inr v)
        [ex_feature, ex_feature2] [NODATA, Finite (7 / 2)]
   \<and> processAlgorithm (ex_env (\<lambda>window. multipart ''wcs'' ex_parts)) (\<lambda>n. False) [ex_feature, ex_feature2]
       = ([([''mast 12''], None), ([''mast 13''], Some (Finite (7 / 2)))], Return_results)
   \<and> Finite (7 / 2) \<noteq> NODATA"
proof -
  let ?env = "ex_env (\<lambda>window. multipart ''wcs'' ex_parts)"
  let ?parts = "[\<lparr>headers = [(''content-type'', ''Content-Type'', ''image/tiff'')], content = ''II*''\<rparr>,
                 \<lparr>headers = [(''content-type'', ''Content-Type'', ''text/xml''),
                             (''content-id'', ''Content-ID'', ''gml'')], content = ''<a/>''\<rparr>]"
  have h1: "request_window ?env ex_point = Inr ex_window" by (rule ex_request_window)
  have h2: "parse_response (py_lib ?env) (get_request_bytes ?env ex_window) = Inr ?parts"
    unfolding ex_env_fields by (rule ex_parse_response)
  have h3: "get_ahn_val_coverage ?parts = Inr ''II*''" by (rule ex_coverage)
  have h4: "gdal_Open ?env ''II*'' = Inr ex_dataset" by (rule ex_env_fields)
  have h5: "pixel_index (GetGeoTransform ex_dataset) ex_point = Inr (2, 4)" by (rule ex_pixel_index)
  have h6: "ReadRaster ex_dataset 2 4 = Inr [CHR 0xFF, CHR 0xFF, CHR 0x7F, CHR 0x7F]"
    by (rule ex_ReadRaster)
  have h7: "list_all2 (\<lambda>ft v. get_ahn_val ?env (point ft) = Inr v)
              [ex_feature, ex_feature2] [NODATA, Finite (7 / 2)]"
    by (simp add: ex_feature_def ex_feature2_def ex_get_ahn_val ex_get_ahn_val2)
  have h8: "\<forall>k \<le> length [ex_feature, ex_feature2]. \<not> (\<lambda>n. False) k" by simp
  have n: "Finite (7 / 2) \<noteq> NODATA" by (simp add: NODATA_value)
  note t = sentinel_translation [of ?env ex_point ex_window ?parts "''II*''" ex_dataset 2 4
      "[CHR 0xFF, CHR 0xFF, CHR 0x7F, CHR 0x7F]" "[ex_feature, ex_feature2]" "[NODATA, Finite (7 / 2)]"
      "\<lambda>n. False"]
  from t h1 h2 h3 h4 h5 h6
  have a: "get_ahn_val ?env ex_point = struct_unpack ?env [CHR 0xFF, CHR 0xFF, CHR 0x7F, CHR 0x7F]"
    by blast
  from t h7 h8
  have "processAlgorithm ?env (\<lambda>n. False) [ex_feature, ex_feature2]
          = (map2 (\<lambda>ft v. (attributes ft, if v = NODATA then None else Some v))
               [ex_feature, ex_feature2] [NODATA, Finite (7 / 2)], Return_results)"
    by blast
  then have b: "processAlgorithm ?env (\<lambda>n. False) [ex_feature, ex_feature2]
          = ([([''mast 12''], None), ([''mast 13''], Some (Finite (7 / 2)))], Return_results)"
    using n by (simp add: ex_feature_def ex_feature2_def)
  from t b
  have "\<forall>new_ft \<in> set [([''mast 12''], None), ([''mast 13''], Some (Finite (7 / 2)))].
             snd new_ft \<noteq> Some NODATA"
    by simp
  then have c: "Finite (7 / 2) \<noteq> NODATA" by simp
  from h1 h4 h5 h6 a h7 b c show ?thesis by blast
qed

section \<open>The pixel index\<close>

lemma pixel_index_finite:
  assumes "\<not> is_zero gt1" and "\<not> is_zero gt5"
    and "is_finite (ieee_div (ieee_sub x gt0) gt1)" and "is_finite (ieee_div (ieee_sub y gt3) gt5)"
  shows "pixel_index (gt0, gt1, gt2, gt3, gt4, gt5) (x, y) =
           Inr (\<lfloor>fval (ieee_div (ieee_sub x gt0) gt1)\<rfloor>, \<lfloor>fval (ieee_div (ieee_sub y gt3) gt5)\<rfloor>)"
  unfolding pixel_index_unfold [OF assms(1,2)]
  by (simp add: math_floor_finite [OF assms(3)] math_floor_finite [OF assms(4)])

lemma pixel_index_100001_2:
  "pixel_index (Finite 100000, Finite (1 / 2), Finite 0, Finite 500000, Finite 0, Finite (- 1 / 2))
     (Finite (6872030136972083 / 2 ^ 36), Finite (8589912258170061 / 2 ^ 34)) = Inr (2, 2)"
proof -
  have z: "\<not> is_zero (Finite (1 / 2))" "\<not> is_zero (Finite (- 1 / 2))"
    by (simp_all add: is_zero_def)
  have fx: "\<lfloor>82463372083 / 2 ^ 35 :: rat\<rfloor> = 2" by (simp add: floor_eq_iff)
  have fy: "\<lfloor>22333829939 / 2 ^ 33 :: rat\<rfloor> = 2" by (simp add: floor_eq_iff)
  show ?thesis
    unfolding pixel_index_unfold [OF z] quotient_x quotient_y
    by (simp only: math_floor_def fval_def py_float.case sum.case fx fy)
qed

text \<open>
  C2. For a GeoTransform with \<open>gt1\<close> and \<open>gt5\<close> not zero and every query point, the pixel
  index is \<open>px = floor((x - gt0) / gt1)\<close> and \<open>py = floor((y - gt3) / gt5)\<close>, the subtraction
  and the division being those of floats: no division raises, and when both quotients
  are finite the index is the pair of their floors (\<open>math.floor\<close> raises on an infinity and
  on NaN). For the GeoTransform \<open>(100000, 0.5, 0, 500000, 0, -0.5)\<close> and the point
  \<open>(100001.2, 499998.7)\<close>, each literal read as the double nearest to it, the index is
  \<open>(2, 2)\<close>.
\<close>

theorem pixel_index_formula:
  assumes "\<not> is_zero gt1" and "\<not> is_zero gt5"
  shows "pixel_index (gt0, gt1, gt2, gt3, gt4, gt5) (x, y) =
           (case math_floor (ieee_div (ieee_sub x gt0) gt1) of
              Inl e \<Rightarrow> Inl e
            | Inr px \<Rightarrow>
                (case math_floor (ieee_div (ieee_sub y gt3) gt5) of
                   Inl e \<Rightarrow> Inl e
                 | Inr py \<Rightarrow> Inr (px, py)))
         \<and> (is_finite (ieee_div (ieee_sub x gt0) gt1) \<and> is_finite (ieee_div (ieee_sub y gt3) gt5)
              \<longrightarrow> pixel_index (gt0, gt1, gt2, gt3, gt4, gt5) (x, y) =
                    Inr (\<lfloor>fval (ieee_div (ieee_sub x gt0) gt1)\<rfloor>,
                         \<lfloor>fval (ieee_div (ieee_sub y gt3) gt5)\<rfloor>))
         \<and> pixel_index (Finite 100000, Finite (1 / 2), Finite 0, Finite 500000, Finite 0, Finite (- 1 / 2))
              (round_double (1000012 / 10), round_double (4999987 / 10)) = Inr (2, 2)"
  using pixel_index_unfold [OF assms] pixel_index_finite [OF assms] pixel_index_100001_2
  unfolding literal_100001_2 literal_499998_7 by blast

theorem pixel_index_formula_witness:
  "\<not> is_zero (Finite (1 / 2)) \<and> \<not> is_zero (Finite (- 1 / 2))
   \<and> is_finite (ieee_div (ieee_sub (Finite (6872030136972083 / 2 ^ 36)) (Finite 100000)) (Finite (1 / 2)))
   \<and> is_finite (ieee_div (ieee_sub (Finite (8589912258170061 / 2 ^ 34)) (Finite 500000)) (Finite (- 1 / 2)))
   \<and> fval (ieee_div (ieee_sub (Finite (6872030136972083 / 2 ^ 36)) (Finite 100000)) (Finite (1 / 2)))
       = 82463372083 / 2 ^ 35
   \<and> fval (ieee_div (ieee_sub (Finite (8589912258170061 / 2 ^ 34)) (Finite 500000)) (Finite (- 1 / 2)))
       = 22333829939 / 2 ^ 33
   \<and> pixel_index (Finite 100000, Finite (1 / 2), Finite 0, Finite 500000, Finite 0, Finite (- 1 / 2))
        (Finite (6872030136972083 / 2 ^ 36), Finite (8589912258170061 / 2 ^ 34))
       = Inr (\<lfloor>82463372083 / 2 ^ 35 :: rat\<rfloor>, \<lfloor>22333829939 / 2 ^ 33 :: rat\<rfloor>)"
proof -
  have h1: "\<not> is_zero (Finite (1 / 2))" and h2: "\<not> is_zero (Finite (- 1 / 2))"
    by (simp_all add: is_zero_def)
  have h3: "is_finite (ieee_div (ieee_sub (Finite (6872030136972083 / 2 ^ 36)) (Finite 100000)) (Finite (1 / 2)))"
    unfolding quotient_x by (simp add: is_finite_def)
  have h4: "is_finite (ieee_div (ieee_sub (Finite (8589912258170061 / 2 ^ 34)) (Finite 500000)) (Finite (- 1 / 2)))"
    unfolding quotient_y by (simp add: is_finite_def)
  have vx: "fval (ieee_div (ieee_sub (Finite (6872030136972083 / 2 ^ 36)) (Finite 100000)) (Finite (1 / 2)))
       = 82463372083 / 2 ^ 35"
    unfolding quotient_x by (simp add: fval_def)
  have vy: "fval (ieee_div (ieee_sub (Finite (8589912258170061 / 2 ^ 34)) (Finite 500000)) (Finite (- 1 / 2)))
       = 22333829939 / 2 ^ 33"
    unfolding quotient_y by (simp add: fval_def)
  from pixel_index_formula [OF h1 h2, of "Finite 100000" "Finite 0" "Finite 500000" "Finite 0"
      "Finite (6872030136972083 / 2 ^ 36)" "Finite (8589912258170061 / 2 ^ 34)"] h3 h4
  have "pixel_index (Finite 100000, Finite (1 / 2), Finite 0, Finite 500000, Finite 0, Finite (- 1 / 2))
        (Finite (6872030136972083 / 2 ^ 36), Finite (8589912258170061 / 2 ^ 34))
       = Inr (\<lfloor>fval (ieee_div (ieee_sub (Finite (6872030136972083 / 2 ^ 36)) (Finite 100000)) (Finite (1 / 2)))\<rfloor>,
              \<lfloor>fval (ieee_div (ieee_sub (Finite (8589912258170061 / 2 ^ 34)) (Finite 500000)) (Finite (- 1 / 2)))\<rfloor>)"
    by blast
  then have "pixel_index (Finite 100000, Finite (1 / 2), Finite 0, Finite 500000, Finite 0, Finite (- 1 / 2))
        (Finite (6872030136972083 / 2 ^ 36), Finite (8589912258170061 / 2 ^ 34))
       = Inr (\<lfloor>82463372083 / 2 ^ 35 :: rat\<rfloor>, \<lfloor>22333829939 / 2 ^ 33 :: rat\<rfloor>)"
    unfolding vx vy .
  with h1 h2 h3 h4 vx vy show ?thesis by blast
qed

section \<open>The request window\<close>

lemma py_floordiv_returns:
  assumes "\<not> is_zero wx"
  shows "\<exists>q. py_floordiv vx wx = Inr q"
  using assms by (simp add: py_floordiv_def Let_def)

lemma window_bounds_quotient:
  assumes "py_floordiv (py_sub v origin) cell_size = Inr q"
  shows "window_bounds origin cell_size v
           = Inr (py_add origin (py_mul q cell_size),
                  py_add (py_add origin (py_mul q cell_size)) (py_mul (Finite 2) cell_size))"
  using assms by (simp add: window_bounds_def Let_def)

lemma window_bounds_floor:
  assumes c1: "pow2 (- 1022) \<le> c" and c2: "c \<le> 2 ^ 970"
    and n: "\<bar>\<lfloor>(v - o') / c\<rfloor>\<bar> < 2 ^ 48"
    and e1: "round_double (v - o') = Finite (v - o')"
    and e2: "round_double (of_int \<lfloor>(v - o') / c\<rfloor> * c) = Finite (of_int \<lfloor>(v - o') / c\<rfloor> * c)"
    and e3: "round_double (o' + of_int \<lfloor>(v - o') / c\<rfloor> * c)
               = Finite (o' + of_int \<lfloor>(v - o') / c\<rfloor> * c)"
    and e4: "round_double (2 * c) = Finite (2 * c)"
    and e5: "round_double (o' + of_int \<lfloor>(v - o') / c\<rfloor> * c + 2 * c)
               = Finite (o' + of_int \<lfloor>(v - o') / c\<rfloor> * c + 2 * c)"
  shows "window_bounds (Finite o') (Finite c) (Finite v)
           = Inr (Finite (o' + of_int \<lfloor>(v - o') / c\<rfloor> * c),
                  Finite (o' + of_int \<lfloor>(v - o') / c\<rfloor> * c + 2 * c))"
proof -
  define k where "k = \<lfloor>(v - o') / c\<rfloor>"
  from c1 pow2_pos [of "- 1022"] have cp: "0 < c" by linarith
  then have c0: "c \<noteq> 0" by simp
  have s: "py_sub (Finite v) (Finite o') = Finite (v - o')"
    by (simp add: py_sub_def ieee_sub_Finite e1)
  have q: "py_floordiv (py_sub (Finite v) (Finite o')) (Finite c) = Inr (Finite (of_int k))"
    unfolding s k_def by (rule py_floordiv_floor [OF c1 c2 n])
  have m: "py_mul (Finite (of_int k)) (Finite c) = Finite (of_int k * c)"
  proof (cases "k = 0")
    case True
    then show ?thesis
      using cp by (simp add: py_mul_def ieee_mul_def is_finite_def fval_def zero_of_def signbit_def)
  next
    case False
    then have "(of_int k :: rat) \<noteq> 0" by simp
    from ieee_mul_Finite_nz [OF this c0] e2 show ?thesis by (simp add: py_mul_def k_def)
  qed
  have a: "py_add (Finite o') (Finite (of_int k * c)) = Finite (o' + of_int k * c)"
    using e3 by (simp add: py_add_def ieee_add_Finite k_def)
  have m2: "py_mul (Finite 2) (Finite c) = Finite (2 * c)"
    using ieee_mul_Finite_nz [of 2 c] c0 e4 by (simp add: py_mul_def)
  have a2: "py_add (Finite (o' + of_int k * c)) (Finite (2 * c)) = Finite (o' + of_int k * c + 2 * c)"
    using e5 by (simp add: py_add_def ieee_add_Finite k_def)
  show ?thesis
    unfolding k_def [symmetric]
    unfolding window_bounds_quotient [OF q] m
    unfolding a m2
    unfolding a2 ..
qed

text \<open>
  C5, as amended. For every origin, every cell size that is not zero and every coordinate,
  the window along an axis is \<open>lower = origin + q * cell_size\<close> and
  \<open>upper = lower + 2 * cell_size\<close>, where \<open>q\<close> is the value of the floor division
  \<open>(v - origin) // cell_size\<close>, which does not raise; the request window holds these bounds
  for x and for y. For a cell size that is a positive normal number, \<open>q\<close> is the floor of
  the exact quotient of the difference \<open>v - origin\<close>, as the float subtraction gives it, by
  the cell size, as long as that floor is below \<open>2^48\<close> in magnitude. Where moreover no
  operation rounds, the bounds are the numbers \<open>origin + \<lfloor>(v - origin) / cell_size\<rfloor> *
  cell_size\<close> and that plus \<open>2 * cell_size\<close>. For the origin 0 and the cell size 2 the bounds
  are 4 and 8 at the coordinate 5, and -6 and -2 at the coordinate -5.
\<close>

theorem window_formula:
  assumes "\<not> is_zero (grid_cell_size env)"
  shows "(\<exists>qx qy.
            py_floordiv (py_sub x (fst (grid_origin env))) (grid_cell_size env) = Inr qx
          \<and> py_floordiv (py_sub y (snd (grid_origin env))) (grid_cell_size env) = Inr qy
          \<and> request_window env (x, y) =
              Inr (py_add (fst (grid_origin env)) (py_mul qx (grid_cell_size env)),
                   py_add (py_add (fst (grid_origin env)) (py_mul qx (grid_cell_size env)))
                     (py_mul (Finite 2) (grid_cell_size env)),
                   py_add (snd (grid_origin env)) (py_mul qy (grid_cell_size env)),
                   py_add (py_add (snd (grid_origin env)) (py_mul qy (grid_cell_size env)))
                     (py_mul (Finite 2) (grid_cell_size env))))
         \<and> (grid_cell_size env = Finite c \<longrightarrow> pow2 (- 1022) \<le> c \<longrightarrow> c \<le> 2 ^ 970
              \<longrightarrow> py_sub x (fst (grid_origin env)) = Finite ax \<longrightarrow> \<bar>\<lfloor>ax / c\<rfloor>\<bar> < 2 ^ 48
              \<longrightarrow> py_sub y (snd (grid_origin env)) = Finite ay \<longrightarrow> \<bar>\<lfloor>ay / c\<rfloor>\<bar> < 2 ^ 48
              \<longrightarrow> py_floordiv (py_sub x (fst (grid_origin env))) (grid_cell_size env)
                    = Inr (Finite (of_int \<lfloor>ax / c\<rfloor>))
                \<and> py_floordiv (py_sub y (snd (grid_origin env))) (grid_cell_size env)
                    = Inr (Finite (of_int \<lfloor>ay / c\<rfloor>))
                \<and> request_window env (x, y) =
                    Inr (py_add (fst (grid_origin env)) (py_mul (Finite (of_int \<lfloor>ax / c\<rfloor>)) (Finite c)),
                         py_add (py_add (fst (grid_origin env)) (py_mul (Finite (of_int \<lfloor>ax / c\<rfloor>)) (Finite c)))
                           (py_mul (Finite 2) (Finite c)),
                         py_add (snd (grid_origin env)) (py_mul (Finite (of_int \<lfloor>ay / c\<rfloor>)) (Finite c)),
                         py_add (py_add (snd (grid_origin env)) (py_mul (Finite (of_int \<lfloor>ay / c\<rfloor>)) (Finite c)))
                           (py_mul (Finite 2) (Finite c))))
         \<and> (pow2 (- 1022) \<le> c \<longrightarrow> c \<le> 2 ^ 970 \<longrightarrow> \<bar>\<lfloor>(v - o') / c\<rfloor>\<bar> < 2 ^ 48
              \<longrightarrow> round_double (v - o') = Finite (v - o')
              \<longrightarrow> round_double (of_int \<lfloor>(v - o') / c\<rfloor> * c) = Finite (of_int \<lfloor>(v - o') / c\<rfloor> * c)
              \<longrightarrow> round_double (o' + of_int \<lfloor>(v - o') / c\<rfloor> * c)
                    = Finite (o' + of_int \<lfloor>(v - o') / c\<rfloor> * c)
              \<longrightarrow> round_double (2 * c) = Finite (2 * c)
              \<longrightarrow> round_double (o' + of_int \<lfloor>(v - o') / c\<rfloor> * c + 2 * c)
                    = Finite (o' + of_int \<lfloor>(v - o') / c\<rfloor> * c + 2 * c)
              \<longrightarrow> window_bounds (Finite o') (Finite c) (Finite v)
                    = Inr (Finite (o' + of_int \<lfloor>(v - o') / c\<rfloor> * c),
                           Finite (o' + of_int \<lfloor>(v - o') / c\<rfloor> * c + 2 * c)))
         \<and> window_bounds (Finite 0) (Finite 2) (Finite 5) = Inr (Finite 4, Finite 8)
         \<and> window_bounds (Finite 0) (Finite 2) (Finite (- 5)) = Inr (Finite (- 6), Finite (- 2))"
proof -
  from py_floordiv_returns [OF assms] obtain qx
    where qx: "py_floordiv (py_sub x (fst (grid_origin env))) (grid_cell_size env) = Inr qx"
    by blast
  from py_floordiv_returns [OF assms] obtain qy
    where qy: "py_floordiv (py_sub y (snd (grid_origin env))) (grid_cell_size env) = Inr qy"
    by blast
  have w: "request_window env (x, y) =
             Inr (py_add (fst (grid_origin env)) (py_mul qx (grid_cell_size env)),
                  py_add (py_add (fst (grid_origin env)) (py_mul qx (grid_cell_size env)))
                    (py_mul (Finite 2) (grid_cell_size env)),
                  py_add (snd (grid_origin env)) (py_mul qy (grid_cell_size env)),
                  py_add (py_add (snd (grid_origin env)) (py_mul qy (grid_cell_size env)))
                    (py_mul (Finite 2) (grid_cell_size env)))"
    by (simp add: request_window_def window_bounds_def qx qy Let_def)
  have A: "\<exists>qx qy.
            py_floordiv (py_sub x (fst (grid_origin env))) (grid_cell_size env) = Inr qx
          \<and> py_floordiv (py_sub y (snd (grid_origin env))) (grid_cell_size env) = Inr qy
          \<and> request_window env (x, y) =
              Inr (py_add (fst (grid_origin env)) (py_mul qx (grid_cell_size env)),
                   py_add (py_add (fst (grid_origin env)) (py_mul qx (grid_cell_size env)))
                     (py_mul (Finite 2) (grid_cell_size env)),
                   py_add (snd (grid_origin env)) (py_mul qy (grid_cell_size env)),
                   py_add (py_add (snd (grid_origin env)) (py_mul qy (grid_cell_size env)))
                     (py_mul (Finite 2) (grid_cell_size env)))"
    using qx qy w by blast
  have B: "py_floordiv (py_sub x (fst (grid_origin env))) (grid_cell_size env)
             = Inr (Finite (of_int \<lfloor>ax / c\<rfloor>))
           \<and> py_floordiv (py_sub y (snd (grid_origin env))) (grid_cell_size env)
               = Inr (Finite (of_int \<lfloor>ay / c\<rfloor>))
           \<and> request_window env (x, y) =
               Inr (py_add (fst (grid_origin env)) (py_mul (Finite (of_int \<lfloor>ax / c\<rfloor>)) (Finite c)),
                    py_add (py_add (fst (grid_origin env)) (py_mul (Finite (of_int \<lfloor>ax / c\<rfloor>)) (Finite c)))
                      (py_mul (Finite 2) (Finite c)),
                    py_add (snd (grid_origin env)) (py_mul (Finite (of_int \<lfloor>ay / c\<rfloor>)) (Finite c)),
                    py_add (py_add (snd (grid_origin env)) (py_mul (Finite (of_int \<lfloor>ay / c\<rfloor>)) (Finite c)))
                      (py_mul (Finite 2) (Finite c)))"
    if g: "grid_cell_size env = Finite c" and c1: "pow2 (- 1022) \<le> c" and c2: "c \<le> 2 ^ 970"
      and sx: "py_sub x (fst (grid_origin env)) = Finite ax" and nx: "\<bar>\<lfloor>ax / c\<rfloor>\<bar> < 2 ^ 48"
      and sy: "py_sub y (snd (grid_origin env)) = Finite ay" and ny: "\<bar>\<lfloor>ay / c\<rfloor>\<bar> < 2 ^ 48"
  proof -
    have fx: "py_floordiv (py_sub x (fst (grid_origin env))) (Finite c) = Inr (Finite (of_int \<lfloor>ax / c\<rfloor>))"
      unfolding sx by (rule py_floordiv_floor [OF c1 c2 nx])
    have fy: "py_floordiv (py_sub y (snd (grid_origin env))) (Finite c) = Inr (Finite (of_int \<lfloor>ay / c\<rfloor>))"
      unfolding sy by (rule py_floordiv_floor [OF c1 c2 ny])
    show ?thesis
      using fx fy
      by (simp add: g request_window_def window_bounds_quotient [OF fx] window_bounds_quotient [OF fy])
  qed
  have C: "window_bounds (Finite o') (Finite c) (Finite v)
             = Inr (Finite (o' + of_int \<lfloor>(v - o') / c\<rfloor> * c),
                    Finite (o' + of_int \<lfloor>(v - o') / c\<rfloor> * c + 2 * c))"
    if "pow2 (- 1022) \<le> c" and "c \<le> 2 ^ 970" and "\<bar>\<lfloor>(v - o') / c\<rfloor>\<bar> < 2 ^ 48"
      and "round_double (v - o') = Finite (v - o')"
      and "round_double (of_int \<lfloor>(v - o') / c\<rfloor> * c) = Finite (of_int \<lfloor>(v - o') / c\<rfloor> * c)"
      and "round_double (o' + of_int \<lfloor>(v - o') / c\<rfloor> * c)
             = Finite (o' + of_int \<lfloor>(v - o') / c\<rfloor> * c)"
      and "round_double (2 * c) = Finite (2 * c)"
      and "round_double (o' + of_int \<lfloor>(v - o') / c\<rfloor> * c + 2 * c)
             = Finite (o' + of_int \<lfloor>(v - o') / c\<rfloor> * c + 2 * c)"
    using that by (rule window_bounds_floor)
  from A B C window_bounds_0_2_5 window_bounds_0_2_m5 show ?thesis by blast
qed

theorem window_formula_witness:
  "\<not> is_zero (grid_cell_size (ex_env (\<lambda>window. [])))
   \<and> grid_cell_size (ex_env (\<lambda>window. [])) = Finite 2
   \<and> pow2 (- 1022) \<le> 2
   \<and> (2 :: rat) \<le> 2 ^ 970
   \<and> py_sub (Finite 100001) (fst (grid_origin (ex_env (\<lambda>window. [])))) = Finite 100001
   \<and> \<bar>\<lfloor>100001 / 2 :: rat\<rfloor>\<bar> < 2 ^ 48
   \<and> py_sub (Finite (- 5)) (snd (grid_origin (ex_env (\<lambda>window. [])))) = Finite (- 5)
   \<and> \<bar>\<lfloor>- 5 / 2 :: rat\<rfloor>\<bar> < 2 ^ 48
   \<and> py_floordiv (py_sub (Finite 100001) (fst (grid_origin (ex_env (\<lambda>window. [])))))
        (grid_cell_size (ex_env (\<lambda>window. []))) = Inr (Finite 50000)
   \<and> py_floordiv (py_sub (Finite (- 5)) (snd (grid_origin (ex_env (\<lambda>window. [])))))
        (grid_cell_size (ex_env (\<lambda>window. []))) = Inr (Finite (- 3))
   \<and> request_window (ex_env (\<lambda>window. [])) (Finite 100001, Finite (- 5))
       = Inr (Finite 100000, Finite 100004, Finite (- 6), Finite (- 2))
   \<and> round_double (- 5 - 0) = Finite (- 5 - 0)
   \<and> round_double (of_int \<lfloor>(- 5 - 0) / 2 :: rat\<rfloor> * 2) = Finite (of_int \<lfloor>(- 5 - 0) / 2 :: rat\<rfloor> * 2)
   \<and> round_double (2 * 2) = Finite (2 * 2)
   \<and> window_bounds (Finite 0) (Finite 2) (Finite (- 5))
       = Inr (Finite (0 + of_int \<lfloor>(- 5 - 0) / 2 :: rat\<rfloor> * 2),
              Finite (0 + of_int \<lfloor>(- 5 - 0) / 2 :: rat\<rfloor> * 2 + 2 * 2))"
proof -
  let ?env = "ex_env (\<lambda>window. [])"
  have o: "grid_origin ?env = (Finite 0, Finite 0)" and c: "grid_cell_size ?env = Finite 2"
    by (simp_all add: ex_env_def)
  have h: "\<not> is_zero (grid_cell_size ?env)"
    by (simp add: c is_zero_def)
  have "pow2 1 \<le> 2" by (simp add: pow2_def)
  then have c1: "pow2 (- 1022) \<le> 2" by (rule normal_bound [rotated]) simp
  have c2: "(2 :: rat) \<le> 2 ^ 970" by simp
  have sx: "py_sub (Finite 100001) (fst (grid_origin ?env)) = Finite 100001"
    by (simp add: o py_sub_def ieee_sub_Finite round_double_numeral)
  have sy: "py_sub (Finite (- 5)) (snd (grid_origin ?env)) = Finite (- 5)"
    by (simp add: o py_sub_def ieee_sub_Finite round_double_neg_numeral)
  have fx: "\<lfloor>100001 / 2 :: rat\<rfloor> = 50000" by (simp add: floor_eq_iff)
  have fy: "\<lfloor>- 5 / 2 :: rat\<rfloor> = - 3" by (simp add: floor_eq_iff)
  have nx: "\<bar>\<lfloor>100001 / 2 :: rat\<rfloor>\<bar> < 2 ^ 48" unfolding fx by simp
  have ny: "\<bar>\<lfloor>- 5 / 2 :: rat\<rfloor>\<bar> < 2 ^ 48" unfolding fy by simp
  have m: "py_add (Finite 0) (py_mul (Finite 50000) (Finite 2)) = Finite 100000"
    "py_add (Finite 100000) (py_mul (Finite 2) (Finite 2)) = Finite 100004"
    by (simp_all add: py_add_def py_mul_def ieee_add_Finite ieee_mul_Finite round_double_numeral)
  have m': "py_add (Finite 0) (py_mul (Finite (- 3)) (Finite 2)) = Finite (- 6)"
    "py_add (Finite (- 6)) (py_mul (Finite 2) (Finite 2)) = Finite (- 2)"
    by (simp_all add: py_add_def py_mul_def ieee_add_Finite ieee_mul_Finite_nz
        round_double_numeral round_double_neg_numeral)
  have e1: "round_double (- 5 - 0) = Finite (- 5 - 0)"
    by (simp add: round_double_neg_numeral)
  have fy': "\<lfloor>(- 5 - 0) / 2 :: rat\<rfloor> = - 3" by (simp add: floor_eq_iff)
  have ny': "\<bar>\<lfloor>(- 5 - 0) / 2 :: rat\<rfloor>\<bar> < 2 ^ 48" unfolding fy' by simp
  have e2: "round_double (of_int \<lfloor>(- 5 - 0) / 2 :: rat\<rfloor> * 2) = Finite (of_int \<lfloor>(- 5 - 0) / 2 :: rat\<rfloor> * 2)"
    unfolding fy' by (simp add: round_double_neg_numeral)
  have e3: "round_double (0 + of_int \<lfloor>(- 5 - 0) / 2 :: rat\<rfloor> * 2)
              = Finite (0 + of_int \<lfloor>(- 5 - 0) / 2 :: rat\<rfloor> * 2)"
    unfolding fy' by (simp add: round_double_neg_numeral)
  have e4: "round_double (2 * 2) = Finite (2 * 2)" by (simp add: round_double_numeral)
  have e5: "round_double (0 + of_int \<lfloor>(- 5 - 0) / 2 :: rat\<rfloor> * 2 + 2 * 2)
              = Finite (0 + of_int \<lfloor>(- 5 - 0) / 2 :: rat\<rfloor> * 2 + 2 * 2)"
    unfolding fy' by (simp add: round_double_neg_numeral)
  note t = window_formula [OF h, of "Finite 100001" "Finite (- 5)" 2 100001 "- 5" "- 5" 0]
  from t c c1 c2 sx nx sy ny
  have q: "py_floordiv (py_sub (Finite 100001) (fst (grid_origin ?env))) (grid_cell_size ?env)
             = Inr (Finite (of_int \<lfloor>100001 / 2 :: rat\<rfloor>))"
      "py_floordiv (py_sub (Finite (- 5)) (snd (grid_origin ?env))) (grid_cell_size ?env)
             = Inr (Finite (of_int \<lfloor>- 5 / 2 :: rat\<rfloor>))"
      "request_window ?env (Finite 100001, Finite (- 5)) =
         Inr (py_add (fst (grid_origin ?env)) (py_mul (Finite (of_int \<lfloor>100001 / 2 :: rat\<rfloor>)) (Finite 2)),
              py_add (py_add (fst (grid_origin ?env)) (py_mul (Finite (of_int \<lfloor>100001 / 2 :: rat\<rfloor>)) (Finite 2)))
                (py_mul (Finite 2) (Finite 2)),
              py_add (snd (grid_origin ?env)) (py_mul (Finite (of_int \<lfloor>- 5 / 2 :: rat\<rfloor>)) (Finite 2)),
              py_add (py_add (snd (grid_origin ?env)) (py_mul (Finite (of_int \<lfloor>- 5 / 2 :: rat\<rfloor>)) (Finite 2)))
                (py_mul (Finite 2) (Finite 2)))"
    by blast+
  have q1: "py_floordiv (py_sub (Finite 100001) (fst (grid_origin ?env))) (grid_cell_size ?env)
              = Inr (Finite 50000)"
    using q(1) unfolding fx by simp
  have q2: "py_floordiv (py_sub (Finite (- 5)) (snd (grid_origin ?env))) (grid_cell_size ?env)
              = Inr (Finite (- 3))"
    using q(2) unfolding fy by simp
  have q3: "request_window ?env (Finite 100001, Finite (- 5))
              = Inr (Finite 100000, Finite 100004, Finite (- 6), Finite (- 2))"
    using q(3) unfolding fx fy o fst_conv snd_conv by (simp add: m m')
  from t c1 c2 ny' e1 e2 e3 e4 e5
  have q4: "window_bounds (Finite 0) (Finite 2) (Finite (- 5))
              = Inr (Finite (0 + of_int \<lfloor>(- 5 - 0) / 2 :: rat\<rfloor> * 2),
                     Finite (0 + of_int \<lfloor>(- 5 - 0) / 2 :: rat\<rfloor> * 2 + 2 * 2))"
    by blast
  from h c c1 c2 sx nx sy ny q1 q2 q3 e1 e2 e4 q4 show ?thesis by blast
qed

text \<open>
  C5 as stated, with the floor of the quotient that the float division gives, fails for
  the origin 0, the cell size 0.1 and the coordinate 1.0: the floor division gives 9 and
  the window runs from 0.9 to 1.1, where \<open>floor((1.0 - 0) / 0.1)\<close> is 10 and the formula
  gives the lower bound 1.0.
\<close>

theorem window_formula_counterexample:
  "window_bounds (Finite 0) (round_double (1 / 10)) (Finite 1)
     = Inr (round_double (9 / 10), round_double (11 / 10))
   \<and> py_truediv (py_sub (Finite 1) (Finite 0)) (round_double (1 / 10)) = Inr (Finite 10)
   \<and> math_floor (Finite 10) = Inr 10
   \<and> py_add (Finite 0) (py_mul (Finite 10) (round_double (1 / 10))) = Finite 1
   \<and> round_double (9 / 10) \<noteq> Finite 1"
proof -
  have n: "round_double (9 / 10) \<noteq> Finite 1" unfolding double_0_9 by simp
  have f: "math_floor (Finite 10) = Inr 10" by (simp add: math_floor_def fval_def)
  from window_0_1 quotient_1_by_0_1 f product_10_by_0_1 n show ?thesis
    unfolding double_0_1 double_0_9 double_1_1 by blast
qed

section \<open>The lookup\<close>

text \<open>
  C9. Let the response document report an integer number of matches \<open>n\<close>. If \<open>n\<close> is not
  1 (no match, or more than one), \<open>lookup_object\<close> returns \<open>None\<close>. If \<open>n\<close> is 1, it returns
  the first element of \<open>docs\<close>. So it returns a record only when exactly one match is
  reported.
\<close>

theorem lookup_object_exactly_one:
  assumes "get_request w (lookup_url w object_id proj) = Inr content_obj"
    and "json_getitem content_obj ''response'' = Inr response"
    and "json_getitem response ''numFound'' = Inr (JInt n)"
  shows "lookup_object w object_id proj =
           (if n = 1
            then (case json_getitem response ''docs'' of
                    Inl e \<Rightarrow> Inl e
                  | Inr docs \<Rightarrow> json_index0 docs)
            else Inr JNull)"
  using assms by (simp add: lookup_object_def json_ne_1_def)

theorem lookup_object_exactly_one_witness:
  "lookup_object (ex_web (ex_response 1)) ''adr-1'' EPSG_4326 = Inr (JObj [(''id'', JStr ''adr-1'')])
   \<and> lookup_object (ex_web (ex_response 2)) ''adr-1'' EPSG_4326 = Inr JNull
   \<and> lookup_object (ex_web (ex_response 0)) ''adr-1'' EPSG_4326 = Inr JNull"
proof -
  let ?r = "\<lambda>n. JObj [(''numFound'', JInt n),
                  (''docs'', JArr [JObj [(''id'', JStr ''adr-1'')], JObj [(''id'', JStr ''adr-2'')]])]"
  have h1: "get_request (ex_web (ex_response n)) (lookup_url (ex_web (ex_response n)) ''adr-1'' EPSG_4326)
              = Inr (ex_response n)" for n
    by (simp add: ex_web_def)
  have h2: "json_getitem (ex_response n) ''response'' = Inr (?r n)" for n
    by (simp add: ex_response_def json_getitem_def)
  have h3: "json_getitem (?r n) ''numFound'' = Inr (JInt n)" for n
    by (simp add: json_getitem_def)
  have d: "(case json_getitem (?r n) ''docs'' of Inl e \<Rightarrow> Inl e | Inr docs \<Rightarrow> json_index0 docs)
             = Inr (JObj [(''id'', JStr ''adr-1'')])" for n
    by (simp add: json_getitem_def json_index0_def)
  from lookup_object_exactly_one [OF h1 h2 h3, of 1] lookup_object_exactly_one [OF h1 h2 h3, of 2]
    lookup_object_exactly_one [OF h1 h2 h3, of 0] d
  show ?thesis by simp
qed

end
